theory Spec2Isabelle
  imports Main "HOL-Library.Word"
begin

unbundle bit_operations_syntax

section \<open>Generated entrypoint stubs (src/util/glvnd\_genentry.c)\<close>

text \<open>
  The module keeps a fixed table of entrypoint records, two base pointers of an aliased
  slab (one writable, one executable view) and a counter. The embedding follows the
  branch of the file that is compiled when an assembly backend is selected; which backend
  is a parameter (\<open>arch\<close>). Pointers are words of the build's pointer width \<open>'p\<close>; a
  pointer to an element of the table is the element's index; memory is a function from
  addresses to bytes, written through the writable view only (that the executable view
  shows the same bytes is the allocator's business and is not used here). Calls into the
  outside (the page allocator, \<open>strdup\<close>, \<open>free\<close>, the cache flush) are appended to
  a trace, and what the outside answers (does the page allocation succeed and with which
  addresses, does \<open>strdup\<close> succeed) is an argument of the operation that asks.

  Two ways in which the program can stop are values of the model: reading through a null
  name pointer in \<open>strcmp\<close>, and a failing \<open>assert\<close> (assertions are taken to be
  compiled in). Pointer and \<open>intptr_t\<close> arithmetic wraps around at the pointer width.
\<close>

subsection \<open>Build configuration and constants\<close>

datatype arch = USE_X86_ASM | USE_X86_64_ASM | USE_ARMV7_ASM

text \<open>The address of the static function \<open>DefaultDispatchFunc\<close> is fixed at link time.\<close>

record 'ptr build =
  isa :: arch
  DefaultDispatchFunc :: 'ptr

definition GENERATED_ENTRYPOINT_MAX :: nat where
  "GENERATED_ENTRYPOINT_MAX = 4096"

definition STUB_ENTRY_SIZE :: nat where
  "STUB_ENTRY_SIZE = 16"

definition le_bytes :: "nat \<Rightarrow> 'a::len word \<Rightarrow> 8 word list" where
  "le_bytes n v = map (\<lambda>k. ucast (drop_bit (8 * k) v)) [0..<n]"

text \<open>The Thumb template is an array of \<open>uint16_t\<close>, laid out little-endian in memory.\<close>

definition STUB_TEMPLATE_THUMB :: "16 word list" where
  "STUB_TEMPLATE_THUMB = [0xf8df, 0xc004, 0x4760, 0xbf00, 0x0000, 0x0000]"

fun STUB_TEMPLATE :: "arch \<Rightarrow> 8 word list" where
  "STUB_TEMPLATE USE_X86_ASM = [0xe9, 0x78, 0x56, 0x34, 0x12]"
| "STUB_TEMPLATE USE_X86_64_ASM =
     [0x48, 0xb8, 0xbd, 0xac, 0xcd, 0xab, 0x78, 0x56, 0x34, 0x12, 0xff, 0xe0]"
| "STUB_TEMPLATE USE_ARMV7_ASM = concat (map (le_bytes 2) STUB_TEMPLATE_THUMB)"

fun DISPATCH_FUNC_OFFSET :: "arch \<Rightarrow> nat" where
  "DISPATCH_FUNC_OFFSET USE_X86_ASM = 1"
| "DISPATCH_FUNC_OFFSET USE_X86_64_ASM = 2"
| "DISPATCH_FUNC_OFFSET USE_ARMV7_ASM = 8"

definition DISPATCH_FUNC_OFFSET_REL :: nat where
  "DISPATCH_FUNC_OFFSET_REL = 5"

text \<open>
  The size in bytes of the object that \<open>SetDispatchFuncPointer\<close> stores: \<open>intptr_t\<close> on
  32-bit x86, a function pointer on x86-64, \<open>uint32_t\<close> on ARMv7.
\<close>

fun dispatch_slot_size :: "arch \<Rightarrow> nat" where
  "dispatch_slot_size USE_X86_ASM = 4"
| "dispatch_slot_size USE_X86_64_ASM = 8"
| "dispatch_slot_size USE_ARMV7_ASM = 4"

subsection \<open>Data\<close>

record 'ptr GLVNDGenEntrypoint =
  procName :: "string option"
  entrypointWrite :: 'ptr
  entrypointExec :: 'ptr
  assigned :: int

datatype 'ptr event =
    Call_AllocExecPages nat
  | Call_FreeExecPages nat 'ptr 'ptr
  | Call_strdup string
  | Call_free "string option"
  | Call_clear_cache 'ptr 'ptr

record 'ptr state =
  entrypoints :: "nat \<Rightarrow> 'ptr GLVNDGenEntrypoint"
  entrypointBufferWrite :: 'ptr
  entrypointBufferExec :: 'ptr
  entrypointCount :: nat
  mem :: "'ptr \<Rightarrow> 8 word"
  trace :: "'ptr event list"

datatype fault = NullDeref | AssertFailed

text \<open>
  The answer of \<open>AllocExecPages\<close>, a parameter of the model: failure (a non-zero status),
  or the writable and the executable base that it stores through its two out-pointers.
\<close>

datatype 'ptr alloc_result = AllocFailed | Allocated 'ptr 'ptr

definition zero_entry :: "'p::len word GLVNDGenEntrypoint" where
  "zero_entry = \<lparr>procName = None, entrypointWrite = 0, entrypointExec = 0, assigned = 0\<rparr>"

text \<open>The statics as the loader leaves them; the bytes of memory are whatever they are.\<close>

definition initial_state :: "('p::len word \<Rightarrow> 8 word) \<Rightarrow> 'p word state" where
  "initial_state m =
     \<lparr>entrypoints = (\<lambda>i. zero_entry), entrypointBufferWrite = 0, entrypointBufferExec = 0,
      entrypointCount = 0, mem = m, trace = []\<rparr>"

subsection \<open>Library functions\<close>

text \<open>
  A name is the list of bytes its pointer points to; the string ends at the first NUL
  byte or at the end of the list. \<open>strcmp\<close> compares bytes as \<open>unsigned char\<close>.
\<close>

definition c_str :: "string \<Rightarrow> string" where
  "c_str s = takeWhile (\<lambda>c. c \<noteq> CHR 0x00) s"

fun strcmp :: "string \<Rightarrow> string \<Rightarrow> int" where
  "strcmp [] [] = 0"
| "strcmp [] (y # ys) = - of_char y"
| "strcmp (x # xs) [] = of_char x"
| "strcmp (x # xs) (y # ys) =
     (if x = y then (if x = CHR 0x00 then 0 else strcmp xs ys)
      else of_char x - of_char y)"

definition strdup :: "bool \<Rightarrow> string \<Rightarrow> string option" where
  "strdup ok s = (if ok then Some (c_str s) else None)"

primrec store_bytes :: "('p::len word \<Rightarrow> 8 word) \<Rightarrow> 'p word \<Rightarrow> 8 word list \<Rightarrow> ('p word \<Rightarrow> 8 word)" where
  "store_bytes m a [] = m"
| "store_bytes m a (x # xs) = store_bytes (m(a := x)) (a + 1) xs"

subsection \<open>The static functions\<close>

definition InitEntrypoints :: "'p::len word alloc_result \<Rightarrow> 'p word state \<Rightarrow> int \<times> 'p word state" where
  "InitEntrypoints os s =
     (if entrypointBufferExec s = 0 then
        (let s1 = s\<lparr>trace := trace s @ [Call_AllocExecPages (STUB_ENTRY_SIZE * GENERATED_ENTRYPOINT_MAX)]\<rparr>
         in case os of
              AllocFailed \<Rightarrow> (- 1, s1)
            | Allocated writeBuf execBuf \<Rightarrow>
                (0, s1\<lparr>entrypointBufferWrite := writeBuf, entrypointBufferExec := execBuf\<rparr>))
      else (0, s))"

definition SetDispatchFuncPointer :: "'p::len word build \<Rightarrow> nat \<Rightarrow> 'p word \<Rightarrow> 'p word state \<Rightarrow> fault + 'p word state" where
  "SetDispatchFuncPointer b entry dispatch s =
     (let code = entrypointWrite (entrypoints s entry);
          exec = entrypointExec (entrypoints s entry)
      in case isa b of
           USE_X86_ASM \<Rightarrow>
             (let offset = dispatch - exec - of_nat DISPATCH_FUNC_OFFSET_REL
              in Inr (s\<lparr>mem := store_bytes (mem s) (code + of_nat (DISPATCH_FUNC_OFFSET USE_X86_ASM))
                                  (le_bytes (dispatch_slot_size USE_X86_ASM) offset)\<rparr>))
         | USE_X86_64_ASM \<Rightarrow>
             Inr (s\<lparr>mem := store_bytes (mem s) (code + of_nat (DISPATCH_FUNC_OFFSET USE_X86_64_ASM))
                                 (le_bytes (dispatch_slot_size USE_X86_64_ASM) dispatch)\<rparr>)
         | USE_ARMV7_ASM \<Rightarrow>
             (let s1 = s\<lparr>mem := store_bytes (mem s) (code + of_nat (DISPATCH_FUNC_OFFSET USE_ARMV7_ASM))
                                   (le_bytes (dispatch_slot_size USE_ARMV7_ASM) (ucast dispatch :: 32 word))\<rparr>
              in if exec AND 1 = 0 then Inl AssertFailed
                 else Inr (s1\<lparr>trace := trace s1 @
                        [Call_clear_cache (exec - 1)
                           (exec - 1 + of_nat (length (STUB_TEMPLATE USE_ARMV7_ASM)))]\<rparr>)))"

definition GenerateEntrypointFunc :: "'p::len word build \<Rightarrow> nat \<Rightarrow> nat \<Rightarrow> 'p word state \<Rightarrow> fault + 'p word state" where
  "GenerateEntrypointFunc b entry index s =
     (let w = entrypointBufferWrite s + of_nat (index * STUB_ENTRY_SIZE);
          x = entrypointBufferExec s + of_nat (index * STUB_ENTRY_SIZE);
          s1 = s\<lparr>entrypoints := (entrypoints s)
                  (entry := (entrypoints s entry)\<lparr>entrypointWrite := w, entrypointExec := x\<rparr>)\<rparr>
      in if STUB_ENTRY_SIZE < length (STUB_TEMPLATE (isa b)) then Inl AssertFailed
         else
           (let s2 = s1\<lparr>mem := store_bytes (mem s1) w (STUB_TEMPLATE (isa b))\<rparr>;
                s3 = (if isa b = USE_ARMV7_ASM
                      then s2\<lparr>entrypoints := (entrypoints s2)
                              (entry := (entrypoints s2 entry)\<lparr>entrypointExec := x + 1\<rparr>)\<rparr>
                      else s2)
            in SetDispatchFuncPointer b entry (DefaultDispatchFunc b) s3))"

subsection \<open>glvndGenerateEntrypoint\<close>

text \<open>
  The scan of the live records. \<open>strcmp\<close> reads through the record's name pointer, so a
  null name is a fault of the program, kept as a value.
\<close>

function find_entrypoint :: "string \<Rightarrow> nat \<Rightarrow> 'ptr state \<Rightarrow> fault + 'ptr option" where
  "find_entrypoint pn i s =
     (if i < entrypointCount s then
        (case procName (entrypoints s i) of
           None \<Rightarrow> Inl NullDeref
         | Some nm \<Rightarrow>
             if strcmp pn nm = 0 then Inr (Some (entrypointExec (entrypoints s i)))
             else find_entrypoint pn (i + 1) s)
      else Inr None)"
  by pat_completeness auto
termination
  by (relation "measure (\<lambda>(pn, i, s). entrypointCount s - i)") auto

declare find_entrypoint.simps [simp del]

definition glvndGenerateEntrypoint ::
  "'p::len word build \<Rightarrow> 'p word alloc_result \<Rightarrow> bool \<Rightarrow> string \<Rightarrow> 'p word state
     \<Rightarrow> fault + ('p word \<times> 'p word state)" where
  "glvndGenerateEntrypoint b os dup_ok pn s =
     (case InitEntrypoints os s of (rc, s0) \<Rightarrow>
        if rc \<noteq> 0 then Inr (0, s0)
        else
          (case find_entrypoint pn 0 s0 of
             Inl f \<Rightarrow> Inl f
           | Inr (Some p) \<Rightarrow> Inr (p, s0)
           | Inr None \<Rightarrow>
               if entrypointCount s0 < GENERATED_ENTRYPOINT_MAX then
                 (let entry = entrypointCount s0;
                      s1 = s0\<lparr>entrypoints := (entrypoints s0)
                              (entry := (entrypoints s0 entry)\<lparr>procName := strdup dup_ok pn\<rparr>),
                            trace := trace s0 @ [Call_strdup pn]\<rparr>
                  in if procName (entrypoints s1 entry) = None then Inr (0, s1)
                     else
                       (let s2 = s1\<lparr>entrypoints := (entrypoints s1)
                                  (entry := (entrypoints s1 entry)\<lparr>assigned := 0\<rparr>)\<rparr>
                        in case GenerateEntrypointFunc b entry (entrypointCount s2) s2 of
                             Inl f \<Rightarrow> Inl f
                           | Inr s3 \<Rightarrow>
                               (let s4 = s3\<lparr>entrypointCount := entrypointCount s3 + 1\<rparr>
                                in Inr (entrypointExec (entrypoints s4 entry), s4))))
               else Inr (0, s0)))"

subsection \<open>glvndUpdateEntrypoints\<close>

text \<open>
  The callback is code of the caller: it gets the record's name pointer and the opaque
  parameter, may change the caller's own state \<open>'w\<close>, and answers with an address.
\<close>

type_synonym ('ptr, 'a, 'w) GLVNDentrypointUpdateCallback =
  "string option \<Rightarrow> 'a \<Rightarrow> 'w \<Rightarrow> 'ptr \<times> 'w"

function update_loop ::
  "'p::len word build \<Rightarrow> ('p word, 'a, 'w) GLVNDentrypointUpdateCallback \<Rightarrow> 'a \<Rightarrow> nat
     \<Rightarrow> 'p word state \<times> 'w \<Rightarrow> fault + ('p word state \<times> 'w)" where
  "update_loop b callback param i (s, w) =
     (if i < entrypointCount s then
        (if assigned (entrypoints s i) = 0 then
           (case callback (procName (entrypoints s i)) param w of
              (addr, w1) \<Rightarrow>
                if addr \<noteq> 0 then
                  (case SetDispatchFuncPointer b i addr s of
                     Inl f \<Rightarrow> Inl f
                   | Inr s1 \<Rightarrow>
                       update_loop b callback param (i + 1)
                         (s1\<lparr>entrypoints := (entrypoints s1)
                               (i := (entrypoints s1 i)\<lparr>assigned := 1\<rparr>)\<rparr>, w1))
                else update_loop b callback param (i + 1) (s, w1))
         else update_loop b callback param (i + 1) (s, w))
      else Inr (s, w))"
  by pat_completeness auto
termination
  by (relation "measure (\<lambda>(b, callback, param, i, s, w). entrypointCount s - i)")
     (auto simp: SetDispatchFuncPointer_def Let_def split: arch.splits if_splits)

declare update_loop.simps [simp del]

definition glvndUpdateEntrypoints ::
  "'p::len word build \<Rightarrow> ('p word, 'a, 'w) GLVNDentrypointUpdateCallback \<Rightarrow> 'a
     \<Rightarrow> 'p word state \<times> 'w \<Rightarrow> fault + ('p word state \<times> 'w)" where
  "glvndUpdateEntrypoints b callback param sw = update_loop b callback param 0 sw"

subsection \<open>glvndFreeEntrypoints\<close>

function free_loop :: "nat \<Rightarrow> 'p::len word state \<Rightarrow> 'p word state" where
  "free_loop i s =
     (if i < entrypointCount s then
        free_loop (i + 1)
          (s\<lparr>entrypoints := (entrypoints s)
                (i := (entrypoints s i)\<lparr>procName := None, entrypointWrite := 0,
                                          entrypointExec := 0, assigned := 0\<rparr>),
             trace := trace s @ [Call_free (procName (entrypoints s i))]\<rparr>)
      else s)"
  by pat_completeness auto
termination
  by (relation "measure (\<lambda>(i, s). entrypointCount s - i)") auto

declare free_loop.simps [simp del]

definition glvndFreeEntrypoints :: "'p::len word state \<Rightarrow> 'p word state" where
  "glvndFreeEntrypoints s =
     (let s1 = free_loop 0 s;
          s2 = s1\<lparr>entrypointCount := 0\<rparr>
      in if entrypointBufferExec s2 \<noteq> 0 then
           s2\<lparr>trace := trace s2 @
                  [Call_FreeExecPages (STUB_ENTRY_SIZE * GENERATED_ENTRYPOINT_MAX)
                     (entrypointBufferWrite s2) (entrypointBufferExec s2)],
              entrypointBufferWrite := 0, entrypointBufferExec := 0\<rparr>
         else s2)"

subsection \<open>Sequences of calls of the public interface\<close>

text \<open>
  A call of the public interface together with what the outside will answer during it.
  A run executes calls in order on the module's state and the caller's state, collects
  what each call returned (\<open>None\<close> for the two \<open>void\<close> functions) and stops at a fault.
\<close>

datatype ('ptr, 'a, 'w) call =
    Generate string "'ptr alloc_result" bool
  | Update "('ptr, 'a, 'w) GLVNDentrypointUpdateCallback" 'a
  | Free

fun exec_call ::
  "'p::len word build \<Rightarrow> ('p word, 'a, 'w) call \<Rightarrow> 'p word state \<times> 'w
     \<Rightarrow> fault + ('p word option \<times> 'p word state \<times> 'w)" where
  "exec_call b (Generate pn os dup_ok) (s, w) =
     (case glvndGenerateEntrypoint b os dup_ok pn s of
        Inl f \<Rightarrow> Inl f
      | Inr (p, s1) \<Rightarrow> Inr (Some p, s1, w))"
| "exec_call b (Update callback param) (s, w) =
     (case glvndUpdateEntrypoints b callback param (s, w) of
        Inl f \<Rightarrow> Inl f
      | Inr (s1, w1) \<Rightarrow> Inr (None, s1, w1))"
| "exec_call b Free (s, w) = Inr (None, glvndFreeEntrypoints s, w)"

fun run ::
  "'p::len word build \<Rightarrow> ('p word, 'a, 'w) call list \<Rightarrow> 'p word state \<times> 'w
     \<Rightarrow> fault + ('p word option list \<times> 'p word state \<times> 'w)" where
  "run b [] sw = Inr ([], sw)"
| "run b (c # cs) sw =
     (case exec_call b c sw of
        Inl f \<Rightarrow> Inl f
      | Inr (r, sw1) \<Rightarrow>
          (case run b cs sw1 of
             Inl f \<Rightarrow> Inl f
           | Inr (rs, sw2) \<Rightarrow> Inr (r # rs, sw2)))"

subsection \<open>Notions used to state the properties\<close>

text \<open>
  The addresses of slot \<open>i\<close> in the two views, the Thumb bit of the build, and the
  bytes that patching a stub stores for a given target.
\<close>

definition thumb_bit :: "'p::len word build \<Rightarrow> 'p word" where
  "thumb_bit b = (if isa b = USE_ARMV7_ASM then 1 else 0)"

definition stub_write :: "'p::len word state \<Rightarrow> nat \<Rightarrow> 'p word" where
  "stub_write s i = entrypointBufferWrite s + of_nat (i * STUB_ENTRY_SIZE)"

definition stub_exec :: "'p::len word build \<Rightarrow> 'p word state \<Rightarrow> nat \<Rightarrow> 'p word" where
  "stub_exec b s i = entrypointBufferExec s + of_nat (i * STUB_ENTRY_SIZE) + thumb_bit b"

definition dispatch_bytes :: "arch \<Rightarrow> 'p::len word \<Rightarrow> 'p word \<Rightarrow> 8 word list" where
  "dispatch_bytes a exec dispatch =
     (case a of
        USE_X86_ASM \<Rightarrow> le_bytes 4 (dispatch - exec - 5)
      | USE_X86_64_ASM \<Rightarrow> le_bytes 8 dispatch
      | USE_ARMV7_ASM \<Rightarrow> le_bytes 4 (ucast dispatch :: 32 word))"

definition patch ::
  "arch \<Rightarrow> 'p::len word \<Rightarrow> 'p word \<Rightarrow> 'p word \<Rightarrow> ('p word \<Rightarrow> 8 word) \<Rightarrow> ('p word \<Rightarrow> 8 word)" where
  "patch a code exec dispatch m =
     store_bytes m (code + of_nat (DISPATCH_FUNC_OFFSET a)) (dispatch_bytes a exec dispatch)"

text \<open>
  Modelled from the spec: the contract of \<open>AllocExecPages\<close>, whose code (utils\_misc.c)
  is not among the sources. When it succeeds it hands out two non-null bases, each the
  start of \<open>STUB_ENTRY_SIZE * GENERATED_ENTRYPOINT_MAX\<close> contiguous bytes, which
  therefore do not run past the end of the address space, the executable one at an even
  address (the spec asks for slots aligned to the slot size).
\<close>

definition region_ok :: "'p::len word \<Rightarrow> 'p word \<Rightarrow> bool" where
  "region_ok w e \<longleftrightarrow>
     w \<noteq> 0 \<and> e \<noteq> 0 \<and> e AND 1 = 0
     \<and> unat w + STUB_ENTRY_SIZE * GENERATED_ENTRYPOINT_MAX \<le> 2 ^ LENGTH('p)
     \<and> unat e + STUB_ENTRY_SIZE * GENERATED_ENTRYPOINT_MAX \<le> 2 ^ LENGTH('p)"

fun os_ok :: "'p::len word alloc_result \<Rightarrow> bool" where
  "os_ok AllocFailed = True"
| "os_ok (Allocated w e) = region_ok w e"

fun call_ok :: "('p::len word, 'a, 'w) call \<Rightarrow> bool" where
  "call_ok (Generate pn os dup_ok) = os_ok os"
| "call_ok (Update callback param) = True"
| "call_ok Free = True"

fun is_Free :: "('ptr, 'a, 'w) call \<Rightarrow> bool" where
  "is_Free Free = True"
| "is_Free (Generate pn os dup_ok) = False"
| "is_Free (Update callback param) = False"

text \<open>The two invariants of the table: one about the names, one about the addresses.\<close>

definition names_inv :: "'p::len word state \<Rightarrow> bool" where
  "names_inv s \<longleftrightarrow>
     entrypointCount s \<le> GENERATED_ENTRYPOINT_MAX
     \<and> (\<forall>i<entrypointCount s. \<exists>nm. procName (entrypoints s i) = Some nm \<and> c_str nm = nm)
     \<and> (\<forall>i. entrypointCount s \<le> i \<longrightarrow> entrypoints s i = zero_entry)
     \<and> (\<forall>i<entrypointCount s. \<forall>j<entrypointCount s.
           procName (entrypoints s i) = procName (entrypoints s j) \<longrightarrow> i = j)"

definition slab_inv :: "'p::len word build \<Rightarrow> 'p word state \<Rightarrow> bool" where
  "slab_inv b s \<longleftrightarrow>
     (\<forall>i<entrypointCount s.
         entrypointWrite (entrypoints s i) = stub_write s i
         \<and> entrypointExec (entrypoints s i) = stub_exec b s i)
     \<and> (entrypointBufferExec s = 0 \<longrightarrow> entrypointBufferWrite s = 0 \<and> entrypointCount s = 0)
     \<and> (entrypointBufferExec s \<noteq> 0 \<longrightarrow>
           region_ok (entrypointBufferWrite s) (entrypointBufferExec s))"

text \<open>
  The update loop written over an explicit list of indices: the callback is asked about
  each index of the list in turn, and a non-null answer is patched into that record's
  stub and marks the record assigned.
\<close>

fun update_over ::
  "'p::len word build \<Rightarrow> ('p word, 'a, 'w) GLVNDentrypointUpdateCallback \<Rightarrow> 'a \<Rightarrow> nat list
     \<Rightarrow> 'p word state \<times> 'w \<Rightarrow> fault + ('p word state \<times> 'w)" where
  "update_over b callback param [] sw = Inr sw"
| "update_over b callback param (i # is) (s, w) =
     (case callback (procName (entrypoints s i)) param w of
        (addr, w1) \<Rightarrow>
          if addr = 0 then update_over b callback param is (s, w1)
          else if isa b = USE_ARMV7_ASM \<and> entrypointExec (entrypoints s i) AND 1 = 0
          then Inl AssertFailed
          else update_over b callback param is
                 (s\<lparr>mem := patch (isa b) (entrypointWrite (entrypoints s i))
                             (entrypointExec (entrypoints s i)) addr (mem s),
                    trace := trace s @
                      (if isa b = USE_ARMV7_ASM
                       then [Call_clear_cache (entrypointExec (entrypoints s i) - 1)
                               (entrypointExec (entrypoints s i) - 1 + 12)]
                       else []),
                    entrypoints := (entrypoints s)(i := (entrypoints s i)\<lparr>assigned := 1\<rparr>)\<rparr>, w1))"

definition unassigned :: "'p::len word state \<Rightarrow> nat list" where
  "unassigned s = filter (\<lambda>i. assigned (entrypoints s i) = 0) [0..<entrypointCount s]"

text \<open>The state with a fresh record for the name in the first unused slot.\<close>

definition inserted :: "'p::len word build \<Rightarrow> string \<Rightarrow> 'p word state \<Rightarrow> 'p word state" where
  "inserted b pn s =
     s\<lparr>entrypoints := (entrypoints s)
          (entrypointCount s :=
             \<lparr>procName = Some (c_str pn),
              entrypointWrite = stub_write s (entrypointCount s),
              entrypointExec = stub_exec b s (entrypointCount s),
              assigned = 0\<rparr>),
       mem := patch (isa b) (stub_write s (entrypointCount s)) (stub_exec b s (entrypointCount s))
                (DefaultDispatchFunc b)
                (store_bytes (mem s) (stub_write s (entrypointCount s)) (STUB_TEMPLATE (isa b))),
       trace := trace s @ [Call_strdup pn] @
                  (if isa b = USE_ARMV7_ASM
                   then [Call_clear_cache (stub_exec b s (entrypointCount s) - 1)
                           (stub_exec b s (entrypointCount s) - 1 + 12)]
                   else []),
       entrypointCount := entrypointCount s + 1\<rparr>"

text \<open>The state after a name copy that failed: the slot's name pointer is null.\<close>

definition strdup_failed :: "string \<Rightarrow> 'p::len word state \<Rightarrow> 'p word state" where
  "strdup_failed pn s =
     s\<lparr>entrypoints := (entrypoints s)
          (entrypointCount s := (entrypoints s (entrypointCount s))\<lparr>procName := None\<rparr>),
       trace := trace s @ [Call_strdup pn]\<rparr>"

text \<open>
  The records that are live in the first state are live in the second with the same name
  and the same two pointers.
\<close>

definition preserved :: "'p::len word state \<Rightarrow> 'p word state \<Rightarrow> bool" where
  "preserved s s' \<longleftrightarrow>
     entrypointCount s \<le> entrypointCount s'
     \<and> (\<forall>i<entrypointCount s.
           procName (entrypoints s' i) = procName (entrypoints s i)
           \<and> entrypointWrite (entrypoints s' i) = entrypointWrite (entrypoints s i)
           \<and> entrypointExec (entrypoints s' i) = entrypointExec (entrypoints s i))"

text \<open>
  The invocations that an update makes, as a list: the callback is run on the names of the
  given indices in order, each invocation starting from the caller's state that the
  previous one left; the result pairs every index with the address answered for it and
  gives the caller's final state. An index is answered when its address is not null.
\<close>

fun answers ::
  "('ptr, 'a, 'w) GLVNDentrypointUpdateCallback \<Rightarrow> 'a \<Rightarrow> (nat \<Rightarrow> string option) \<Rightarrow> nat list \<Rightarrow> 'w
     \<Rightarrow> (nat \<times> 'ptr) list \<times> 'w" where
  "answers callback param nm [] w = ([], w)"
| "answers callback param nm (i # is) w =
     (case callback (nm i) param w of
        (addr, w1) \<Rightarrow>
          (case answers callback param nm is w1 of (as, w2) \<Rightarrow> ((i, addr) # as, w2)))"

definition answered :: "(nat \<times> 'p::len word) list \<Rightarrow> nat list" where
  "answered as = map fst (filter (\<lambda>ia. snd ia \<noteq> 0) as)"

definition patch_all ::
  "arch \<Rightarrow> (nat \<Rightarrow> 'p::len word GLVNDGenEntrypoint) \<Rightarrow> (nat \<times> 'p word) list
     \<Rightarrow> ('p word \<Rightarrow> 8 word) \<Rightarrow> ('p word \<Rightarrow> 8 word)" where
  "patch_all a es as m =
     foldl (\<lambda>m ia. if snd ia \<noteq> 0
                    then patch a (entrypointWrite (es (fst ia))) (entrypointExec (es (fst ia))) (snd ia) m
                    else m) m as"

subsection \<open>Concrete inputs\<close>

text \<open>
  Builds, states and sequences of calls on which the statements below are instantiated:
  32-bit builds for x86 and for ARMv7, states with one live record, and runs that generate
  a few names, update them, free the table and fill it to capacity.
\<close>

definition ex_build :: "32 word build" where
  "ex_build = \<lparr>isa = USE_X86_ASM, DefaultDispatchFunc = 0x5000\<rparr>"

definition ex_state1 :: "32 word state" where
  "ex_state1 =
     \<lparr>entrypoints = (\<lambda>i. zero_entry)
        (0 := \<lparr>procName = Some ''glFoo'', entrypointWrite = 0x1000, entrypointExec = 0x2000,
               assigned = 0\<rparr>),
      entrypointBufferWrite = 0x1000, entrypointBufferExec = 0x2000,
      entrypointCount = 1, mem = (\<lambda>a. 0), trace = []\<rparr>"

definition ex_calls :: "(32 word, unit, string option list) call list" where
  "ex_calls =
     [Generate ''glFoo'' (Allocated 0x1000 0x2000) True,
      Generate ''glBar'' AllocFailed True,
      Update (\<lambda>n p w. (if n = Some ''glFoo'' then 0x7000 else 0, w @ [n])) (),
      Generate ''glFoo'' AllocFailed False,
      Free,
      Generate ''glBaz'' (Allocated 0x3000 0x4000) True]"

definition ex_build_arm :: "32 word build" where
  "ex_build_arm = \<lparr>isa = USE_ARMV7_ASM, DefaultDispatchFunc = 0x5001\<rparr>"

definition ex_state_arm :: "32 word state" where
  "ex_state_arm =
     \<lparr>entrypoints = (\<lambda>i. zero_entry)
        (0 := \<lparr>procName = Some ''glFoo'', entrypointWrite = 0x1000, entrypointExec = 0x2001,
               assigned = 0\<rparr>),
      entrypointBufferWrite = 0x1000, entrypointBufferExec = 0x2000,
      entrypointCount = 1, mem = (\<lambda>a. 0), trace = []\<rparr>"

definition ex_gen2 :: "(32 word, unit, string option list) call list" where
  "ex_gen2 =
     [Generate ''glFoo'' (Allocated 0x1000 0x2000) True,
      Generate ''glBar'' AllocFailed True]"

definition ex_more :: "(32 word, unit, string option list) call list" where
  "ex_more =
     [Update (\<lambda>n p w. (if n = Some ''glFoo'' then 0x7000 else 0, w @ [n])) (),
      Generate ''glBaz'' AllocFailed True,
      Generate ''glFoo'' AllocFailed True]"

definition ex_names :: "string list" where
  "ex_names = map (\<lambda>k. replicate (Suc k) (CHR ''a'')) [0..<GENERATED_ENTRYPOINT_MAX]"

definition ex_upd :: "(32 word, unit, string option list) call list" where
  "ex_upd = ex_gen2 @
     [Update (\<lambda>n p w. (if n = Some ''glFoo'' then 0x7000 else 0, w @ [n])) ()]"

section \<open>Basic facts\<close>

lemma of_char_eq_0_iff: "of_char c = (0::int) \<longleftrightarrow> c = CHR 0x00"
proof -
  have "of_char (CHR 0x00) = (0::int)" by simp
  then show ?thesis by (metis of_char_eq_iff)
qed

lemma strcmp_eq_0_iff: "strcmp a b = 0 \<longleftrightarrow> c_str a = c_str b"
  by (induction a b rule: strcmp.induct) (auto simp: c_str_def of_char_eq_0_iff)

lemma c_str_idem [simp]: "c_str (c_str s) = c_str s"
  by (simp add: c_str_def)

lemma free_loop_closed:
  "free_loop i s =
     s\<lparr>entrypoints := (\<lambda>j. if i \<le> j \<and> j < entrypointCount s then zero_entry else entrypoints s j),
       trace := trace s @ map (\<lambda>j. Call_free (procName (entrypoints s j))) [i..<entrypointCount s]\<rparr>"
proof (induction i s rule: free_loop.induct)
  case (1 i s)
  show ?case
  proof (cases "i < entrypointCount s")
    case True
    have "free_loop i s = free_loop (i + 1)
          (s\<lparr>entrypoints := (entrypoints s)
                (i := (entrypoints s i)\<lparr>procName := None, entrypointWrite := 0,
                                          entrypointExec := 0, assigned := 0\<rparr>),
             trace := trace s @ [Call_free (procName (entrypoints s i))]\<rparr>)"
      using True by (subst free_loop.simps) simp
    also have "\<dots> = s\<lparr>entrypoints := (\<lambda>j. if i \<le> j \<and> j < entrypointCount s then zero_entry else entrypoints s j),
       trace := trace s @ map (\<lambda>j. Call_free (procName (entrypoints s j))) [i..<entrypointCount s]\<rparr>"
      using True
      by (subst "1.IH") (auto simp: zero_entry_def fun_eq_iff upt_conv_Cons intro!: state.equality)
    finally show ?thesis .
  next
    case False
    then show ?thesis
      by (subst free_loop.simps) (auto simp: fun_eq_iff intro!: state.equality)
  qed
qed

lemma glvndFreeEntrypoints_closed:
  "glvndFreeEntrypoints s =
     s\<lparr>entrypoints := (\<lambda>j. if j < entrypointCount s then zero_entry else entrypoints s j),
       entrypointCount := 0,
       entrypointBufferWrite := (if entrypointBufferExec s \<noteq> 0 then 0 else entrypointBufferWrite s),
       entrypointBufferExec := 0,
       trace := trace s @ map (\<lambda>j. Call_free (procName (entrypoints s j))) [0..<entrypointCount s]
                @ (if entrypointBufferExec s \<noteq> 0
                   then [Call_FreeExecPages (STUB_ENTRY_SIZE * GENERATED_ENTRYPOINT_MAX)
                           (entrypointBufferWrite s) (entrypointBufferExec s)]
                   else [])\<rparr>"
  by (auto simp: glvndFreeEntrypoints_def free_loop_closed Let_def intro!: state.equality)

lemma SetDispatchFuncPointer_eq:
  "SetDispatchFuncPointer b entry dispatch s =
     (if isa b = USE_ARMV7_ASM \<and> entrypointExec (entrypoints s entry) AND 1 = 0 then Inl AssertFailed
      else Inr (s\<lparr>mem := patch (isa b) (entrypointWrite (entrypoints s entry))
                           (entrypointExec (entrypoints s entry)) dispatch (mem s),
                  trace := trace s @
                    (if isa b = USE_ARMV7_ASM
                     then [Call_clear_cache (entrypointExec (entrypoints s entry) - 1)
                             (entrypointExec (entrypoints s entry) - 1 + 12)]
                     else [])\<rparr>))"
  by (cases "isa b")
     (auto simp: SetDispatchFuncPointer_def Let_def patch_def dispatch_bytes_def
        DISPATCH_FUNC_OFFSET_REL_def le_bytes_def STUB_TEMPLATE_THUMB_def intro!: state.equality)

lemma GenerateEntrypointFunc_eq:
  "GenerateEntrypointFunc b entry index s =
     (let e = (entrypoints s entry)\<lparr>entrypointWrite := stub_write s index,
                                      entrypointExec := stub_exec b s index\<rparr>
      in if isa b = USE_ARMV7_ASM \<and> stub_exec b s index AND 1 = 0 then Inl AssertFailed
         else Inr (s\<lparr>entrypoints := (entrypoints s)(entry := e),
                     mem := patch (isa b) (stub_write s index) (stub_exec b s index)
                              (DefaultDispatchFunc b)
                              (store_bytes (mem s) (stub_write s index) (STUB_TEMPLATE (isa b))),
                     trace := trace s @
                       (if isa b = USE_ARMV7_ASM
                        then [Call_clear_cache (stub_exec b s index - 1) (stub_exec b s index - 1 + 12)]
                        else [])\<rparr>))"
  by (cases "isa b")
     (auto simp: GenerateEntrypointFunc_def SetDispatchFuncPointer_eq Let_def stub_write_def
        stub_exec_def thumb_bit_def STUB_ENTRY_SIZE_def le_bytes_def STUB_TEMPLATE_THUMB_def
        intro!: state.equality)

lemma find_entrypoint_empty: "entrypointCount s = 0 \<Longrightarrow> find_entrypoint pn i s = Inr None"
  by (subst find_entrypoint.simps) simp

lemma region_ok_thumb: "region_ok w (e::'p::len word) \<Longrightarrow> (e + 1) AND 1 \<noteq> 0"
  by (simp add: region_ok_def and_one_eq mod_2_eq_odd)

lemma update_loop_eq:
  "update_loop b cb prm i (s, w) =
     update_over b cb prm (filter (\<lambda>j. assigned (entrypoints s j) = 0) [i..<entrypointCount s]) (s, w)"
proof (induction b cb prm i "(s, w)" arbitrary: s w rule: update_loop.induct)
  case (1 b cb prm i s w)
  show ?case
  proof (cases "i < entrypointCount s")
    case False
    then show ?thesis by (subst update_loop.simps) simp
  next
    case True
    then have upt: "[i..<entrypointCount s] = i # [i + 1..<entrypointCount s]"
      by (simp add: upt_conv_Cons)
    show ?thesis
    proof (cases "assigned (entrypoints s i) = 0")
      case False
      with True "1"(3)[OF True False] show ?thesis
        by (subst update_loop.simps) (simp add: upt)
    next
      case un: True
      obtain addr w1 where cb: "cb (procName (entrypoints s i)) prm w = (addr, w1)"
        by (cases "cb (procName (entrypoints s i)) prm w")
      show ?thesis
      proof (cases "addr = 0")
        case True
        have "\<not> addr \<noteq> 0" using True by simp
        note ih = "1"(2)[OF \<open>i < entrypointCount s\<close> un cb[symmetric] this]
        with \<open>i < entrypointCount s\<close> un cb True show ?thesis
          by (subst update_loop.simps) (simp add: upt)
      next
        case nz: False
        show ?thesis
        proof (cases "isa b = USE_ARMV7_ASM \<and> entrypointExec (entrypoints s i) AND 1 = 0")
          case True
          with \<open>i < entrypointCount s\<close> un cb nz show ?thesis
            by (subst update_loop.simps) (simp add: upt SetDispatchFuncPointer_eq)
        next
          case False
          let ?fl = "if isa b = USE_ARMV7_ASM
                     then [Call_clear_cache (entrypointExec (entrypoints s i) - 1)
                             (entrypointExec (entrypoints s i) - 1 + 12)]
                     else []"
          let ?s1 = "s\<lparr>mem := patch (isa b) (entrypointWrite (entrypoints s i))
                             (entrypointExec (entrypoints s i)) addr (mem s),
                  trace := trace s @ ?fl\<rparr>"
          let ?s2 = "s\<lparr>mem := patch (isa b) (entrypointWrite (entrypoints s i))
                             (entrypointExec (entrypoints s i)) addr (mem s),
                    trace := trace s @ ?fl,
                    entrypoints := (entrypoints s)(i := (entrypoints s i)\<lparr>assigned := 1\<rparr>)\<rparr>"
          let ?P = "\<lambda>t j. assigned (entrypoints t j) = 0"
          have sd: "SetDispatchFuncPointer b i addr s = Inr ?s1"
            using False by (simp add: SetDispatchFuncPointer_eq)
          have s12: "?s1\<lparr>entrypoints := (entrypoints ?s1)(i := (entrypoints ?s1 i)\<lparr>assigned := 1\<rparr>)\<rparr> = ?s2"
            by simp
          have f: "filter (?P ?s2) [i + 1..<entrypointCount ?s2]
                 = filter (?P s) [i + 1..<entrypointCount s]"
            by (rule filter_cong) auto
          have lhs: "update_loop b cb prm i (s, w) = update_loop b cb prm (i + 1) (?s2, w1)"
            using \<open>i < entrypointCount s\<close> un cb nz sd s12 by (subst update_loop.simps) simp
          have ih: "update_loop b cb prm (i + 1) (?s2, w1) = update_over b cb prm
              (filter (?P ?s2) [i + 1..<entrypointCount ?s2]) (?s2, w1)"
            using "1"(1)[OF \<open>i < entrypointCount s\<close> un cb[symmetric] nz sd] s12 by simp
          have rhs: "update_over b cb prm (filter (?P s) [i..<entrypointCount s]) (s, w)
                 = update_over b cb prm (filter (?P s) [i + 1..<entrypointCount s]) (?s2, w1)"
            using un cb nz False by (auto simp: upt)
          show ?thesis
            unfolding lhs ih rhs f ..
        qed
      qed
    qed
  qed
qed

lemma find_entrypoint_step:
  "i < entrypointCount s \<Longrightarrow> procName (entrypoints s i) = Some nm \<Longrightarrow>
     find_entrypoint pn i s =
       (if c_str pn = c_str nm then Inr (Some (entrypointExec (entrypoints s i)))
        else find_entrypoint pn (Suc i) s)"
  by (subst find_entrypoint.simps) (simp add: strcmp_eq_0_iff)

lemma find_entrypoint_null:
  "i < entrypointCount s \<Longrightarrow> procName (entrypoints s i) = None \<Longrightarrow>
     find_entrypoint pn i s = Inl NullDeref"
  by (subst find_entrypoint.simps) simp

lemma find_entrypoint_end:
  "\<not> i < entrypointCount s \<Longrightarrow> find_entrypoint pn i s = Inr None"
  by (subst find_entrypoint.simps) simp

lemma find_entrypoint_None_iff:
  "find_entrypoint pn i s = Inr None \<longleftrightarrow>
     (\<forall>j. i \<le> j \<and> j < entrypointCount s \<longrightarrow>
          (\<exists>nm. procName (entrypoints s j) = Some nm \<and> c_str nm \<noteq> c_str pn))"
  (is "_ \<longleftrightarrow> ?R i")
proof (induction pn i s rule: find_entrypoint.induct)
  case (1 pn i s)
  let ?Q = "\<lambda>j. \<exists>nm. procName (entrypoints s j) = Some nm \<and> c_str nm \<noteq> c_str pn"
  show ?case
  proof (cases "i < entrypointCount s")
    case False
    then have "\<forall>j. i \<le> j \<and> j < entrypointCount s \<longrightarrow> ?Q j" by auto
    moreover have "find_entrypoint pn i s = Inr None"
      using False by (rule find_entrypoint_end)
    ultimately show ?thesis by blast
  next
    case True
    show ?thesis
    proof (cases "procName (entrypoints s i)")
      case None
      then have "\<not> ?Q i" by simp
      with True have "\<not> (\<forall>j. i \<le> j \<and> j < entrypointCount s \<longrightarrow> ?Q j)" by blast
      moreover have "find_entrypoint pn i s \<noteq> Inr None"
        using True None by (simp add: find_entrypoint_null)
      ultimately show ?thesis by blast
    next
      case (Some nm)
      show ?thesis
      proof (cases "c_str pn = c_str nm")
        case eq: True
        then have "\<not> ?Q i" using Some by simp
        with True have "\<not> (\<forall>j. i \<le> j \<and> j < entrypointCount s \<longrightarrow> ?Q j)" by blast
        moreover have "find_entrypoint pn i s \<noteq> Inr None"
          using True Some eq by (simp add: find_entrypoint_step)
        ultimately show ?thesis by blast
      next
        case False
        then have ne: "strcmp pn nm \<noteq> 0" by (simp add: strcmp_eq_0_iff)
        have Qi: "?Q i" using Some False by simp
        have step: "find_entrypoint pn i s = find_entrypoint pn (i + 1) s"
          using True Some False by (simp add: find_entrypoint_step)
        have ih: "find_entrypoint pn (i + 1) s = Inr None \<longleftrightarrow>
           (\<forall>j. i + 1 \<le> j \<and> j < entrypointCount s \<longrightarrow> ?Q j)"
          using "1"[OF True Some ne] .
        have "(\<forall>j. i + 1 \<le> j \<and> j < entrypointCount s \<longrightarrow> ?Q j)
              \<longleftrightarrow> (\<forall>j. i \<le> j \<and> j < entrypointCount s \<longrightarrow> ?Q j)"
        proof
          assume A: "\<forall>j. i + 1 \<le> j \<and> j < entrypointCount s \<longrightarrow> ?Q j"
          show "\<forall>j. i \<le> j \<and> j < entrypointCount s \<longrightarrow> ?Q j"
          proof (intro allI impI)
            fix j assume j: "i \<le> j \<and> j < entrypointCount s"
            show "?Q j"
            proof (cases "j = i")
              case True then show ?thesis using Qi by simp
            next
              case False
              with j have "i + 1 \<le> j \<and> j < entrypointCount s" by simp
              with A show ?thesis by blast
            qed
          qed
        next
          assume A: "\<forall>j. i \<le> j \<and> j < entrypointCount s \<longrightarrow> ?Q j"
          show "\<forall>j. i + 1 \<le> j \<and> j < entrypointCount s \<longrightarrow> ?Q j"
          proof (intro allI impI)
            fix j assume "i + 1 \<le> j \<and> j < entrypointCount s"
            then have "i \<le> j \<and> j < entrypointCount s" by simp
            with A show "?Q j" by blast
          qed
        qed
        with step ih show ?thesis by simp
      qed
    qed
  qed
qed

lemma find_entrypoint_Some:
  "find_entrypoint pn i s = Inr (Some p) \<Longrightarrow>
     \<exists>k nm. i \<le> k \<and> k < entrypointCount s \<and> procName (entrypoints s k) = Some nm
        \<and> c_str nm = c_str pn \<and> p = entrypointExec (entrypoints s k)"
proof (induction pn i s rule: find_entrypoint.induct)
  case (1 pn i s)
  show ?case
  proof (cases "i < entrypointCount s")
    case False
    with "1.prems" show ?thesis by (simp add: find_entrypoint_end)
  next
    case True
    show ?thesis
    proof (cases "procName (entrypoints s i)")
      case None
      with True "1.prems" show ?thesis by (simp add: find_entrypoint_null)
    next
      case (Some nm)
      show ?thesis
      proof (cases "c_str pn = c_str nm")
        case True
        with \<open>i < entrypointCount s\<close> Some "1.prems" show ?thesis
          by (auto simp: find_entrypoint_step)
      next
        case False
        then have ne: "strcmp pn nm \<noteq> 0" by (simp add: strcmp_eq_0_iff)
        have "find_entrypoint pn (i + 1) s = Inr (Some p)"
          using True Some False "1.prems" by (simp add: find_entrypoint_step)
        from "1.IH"[OF True Some ne this] obtain k nm' where
          "i + 1 \<le> k" "k < entrypointCount s" "procName (entrypoints s k) = Some nm'"
          "c_str nm' = c_str pn" "p = entrypointExec (entrypoints s k)" by blast
        moreover from this have "i \<le> k" by simp
        ultimately show ?thesis by blast
      qed
    qed
  qed
qed

lemma find_entrypoint_first:
  "i \<le> k \<Longrightarrow> k < entrypointCount s \<Longrightarrow> procName (entrypoints s k) = Some nm \<Longrightarrow>
   c_str nm = c_str pn \<Longrightarrow>
   (\<forall>j. i \<le> j \<and> j < k \<longrightarrow> (\<exists>nm'. procName (entrypoints s j) = Some nm' \<and> c_str nm' \<noteq> c_str pn)) \<Longrightarrow>
   find_entrypoint pn i s = Inr (Some (entrypointExec (entrypoints s k)))"
proof (induction "k - i" arbitrary: i)
  case 0
  then have "i = k" by simp
  with 0 show ?case by (simp add: find_entrypoint_step)
next
  case (Suc d)
  then have ik: "i < k" by simp
  then obtain nm' where nm': "procName (entrypoints s i) = Some nm'" "c_str nm' \<noteq> c_str pn"
    using Suc.prems(5) by auto
  have "find_entrypoint pn i s = find_entrypoint pn (Suc i) s"
    using ik Suc.prems(2) nm' by (auto simp: find_entrypoint_step)
  also have "\<dots> = Inr (Some (entrypointExec (entrypoints s k)))"
    using Suc.hyps(2) ik Suc.prems by (intro Suc.hyps(1)) auto
  finally show ?case .
qed

lemma find_entrypoint_no_fault:
  "(\<forall>j<entrypointCount s. procName (entrypoints s j) \<noteq> None) \<Longrightarrow>
     \<exists>r. find_entrypoint pn i s = Inr r"
proof (induction pn i s rule: find_entrypoint.induct)
  case (1 pn i s)
  show ?case
  proof (cases "i < entrypointCount s")
    case False
    then show ?thesis by (simp add: find_entrypoint_end)
  next
    case True
    then obtain nm where nm: "procName (entrypoints s i) = Some nm"
      using "1.prems" by auto
    show ?thesis
    proof (cases "c_str pn = c_str nm")
      case True
      with \<open>i < entrypointCount s\<close> nm show ?thesis by (simp add: find_entrypoint_step)
    next
      case False
      then have ne: "strcmp pn nm \<noteq> 0" by (simp add: strcmp_eq_0_iff)
      from "1.IH"[OF True nm ne "1.prems"] True nm False show ?thesis
        by (simp add: find_entrypoint_step)
    qed
  qed
qed

lemma generate_eq:
  "glvndGenerateEntrypoint b os dup_ok pn s =
     (let s0 = snd (InitEntrypoints os s) in
      if fst (InitEntrypoints os s) \<noteq> 0 then Inr (0, s0)
      else
        (case find_entrypoint pn 0 s0 of
           Inl f \<Rightarrow> Inl f
         | Inr (Some p) \<Rightarrow> Inr (p, s0)
         | Inr None \<Rightarrow>
             if \<not> entrypointCount s0 < GENERATED_ENTRYPOINT_MAX then Inr (0, s0)
             else if \<not> dup_ok then
               Inr (0, s0\<lparr>entrypoints := (entrypoints s0)
                           (entrypointCount s0 := (entrypoints s0 (entrypointCount s0))\<lparr>procName := None\<rparr>),
                         trace := trace s0 @ [Call_strdup pn]\<rparr>)
             else if isa b = USE_ARMV7_ASM \<and> stub_exec b s0 (entrypointCount s0) AND 1 = 0
             then Inl AssertFailed
             else Inr (stub_exec b s0 (entrypointCount s0), inserted b pn s0)))"
  by (cases "InitEntrypoints os s")
     (auto simp: glvndGenerateEntrypoint_def Let_def strdup_def GenerateEntrypointFunc_eq
        inserted_def stub_write_def stub_exec_def
        split: sum.splits option.splits intro!: state.equality)

lemma InitEntrypoints_fields [simp]:
  "entrypoints (snd (InitEntrypoints os s)) = entrypoints s"
  "entrypointCount (snd (InitEntrypoints os s)) = entrypointCount s"
  "mem (snd (InitEntrypoints os s)) = mem s"
  by (auto simp: InitEntrypoints_def Let_def split: alloc_result.splits)

lemma InitEntrypoints_initialised:
  "entrypointBufferExec s \<noteq> 0 \<Longrightarrow> InitEntrypoints os s = (0, s)"
  by (simp add: InitEntrypoints_def)

lemma names_inv_inserted:
  assumes inv: "names_inv s" and fresh: "find_entrypoint pn 0 s = Inr None"
    and room: "entrypointCount s < GENERATED_ENTRYPOINT_MAX"
  shows "names_inv (inserted b pn s)"
proof -
  let ?n = "entrypointCount s"
  have old: "\<And>i. i < ?n \<Longrightarrow> \<exists>nm. procName (entrypoints s i) = Some nm \<and> c_str nm = nm
                 \<and> nm \<noteq> c_str pn"
  proof -
    fix i assume i: "i < ?n"
    from inv i obtain nm where nm: "procName (entrypoints s i) = Some nm" "c_str nm = nm"
      unfolding names_inv_def by blast
    from fresh i nm have "c_str nm \<noteq> c_str pn"
      by (auto simp: find_entrypoint_None_iff)
    with nm show "\<exists>nm. procName (entrypoints s i) = Some nm \<and> c_str nm = nm \<and> nm \<noteq> c_str pn"
      by simp
  qed
  have uniq: "\<And>i j. i < ?n \<Longrightarrow> j < ?n \<Longrightarrow>
     procName (entrypoints s i) = procName (entrypoints s j) \<Longrightarrow> i = j"
    using inv unfolding names_inv_def by blast
  have zero: "\<And>i. ?n \<le> i \<Longrightarrow> entrypoints s i = zero_entry"
    using inv unfolding names_inv_def by blast
  let ?t = "inserted b pn s"
  have cnt: "entrypointCount ?t = Suc ?n" by (simp add: inserted_def)
  have ent: "\<And>i. entrypoints ?t i =
      (if i = ?n then \<lparr>procName = Some (c_str pn), entrypointWrite = stub_write s ?n,
                        entrypointExec = stub_exec b s ?n, assigned = 0\<rparr>
       else entrypoints s i)"
    by (simp add: inserted_def)
  have c1: "entrypointCount ?t \<le> GENERATED_ENTRYPOINT_MAX" using room cnt by simp
  have c2: "\<forall>i<entrypointCount ?t. \<exists>nm. procName (entrypoints ?t i) = Some nm \<and> c_str nm = nm"
  proof (intro allI impI)
    fix i assume "i < entrypointCount ?t"
    then have "i < ?n \<or> i = ?n" using cnt by auto
    then show "\<exists>nm. procName (entrypoints ?t i) = Some nm \<and> c_str nm = nm"
      using old[of i] by (auto simp: ent)
  qed
  have c3: "\<forall>i. entrypointCount ?t \<le> i \<longrightarrow> entrypoints ?t i = zero_entry"
    using zero cnt by (auto simp: ent)
  have c4: "\<forall>i<entrypointCount ?t. \<forall>j<entrypointCount ?t.
           procName (entrypoints ?t i) = procName (entrypoints ?t j) \<longrightarrow> i = j"
  proof (intro allI impI)
    fix i j assume i: "i < entrypointCount ?t" and j: "j < entrypointCount ?t"
      and eq: "procName (entrypoints ?t i) = procName (entrypoints ?t j)"
    from i j cnt have ij: "i < ?n \<or> i = ?n" "j < ?n \<or> j = ?n" by auto
    show "i = j"
    proof (cases "i = ?n")
      case True
      show ?thesis
      proof (cases "j = ?n")
        case True with \<open>i = ?n\<close> show ?thesis by simp
      next
        case False
        with ij have "j < ?n" by simp
        from old[OF this] eq True False show ?thesis by (auto simp: ent)
      qed
    next
      case False
      with ij have i': "i < ?n" by simp
      show ?thesis
      proof (cases "j = ?n")
        case True
        from old[OF i'] eq True False show ?thesis by (auto simp: ent)
      next
        case jf: False
        with ij have "j < ?n" by simp
        with i' eq False jf show ?thesis by (auto simp: ent intro: uniq)
      qed
    qed
  qed
  show ?thesis
    unfolding names_inv_def using c1 c2 c3 c4 by blast
qed

lemma names_inv_strdup_failed:
  assumes inv: "names_inv s"
  shows "(entrypoints s)(entrypointCount s := (entrypoints s (entrypointCount s))\<lparr>procName := None\<rparr>)
           = entrypoints s"
proof -
  have "entrypoints s (entrypointCount s) = zero_entry"
    using inv unfolding names_inv_def by blast
  then show ?thesis by (auto simp: zero_entry_def fun_eq_iff)
qed

lemma generate_Inr_cases:
  assumes g: "glvndGenerateEntrypoint b os dup_ok pn s = Inr (p, s')"
  defines "s0 \<equiv> snd (InitEntrypoints os s)"
  obtains
    (init_failed) "fst (InitEntrypoints os s) \<noteq> 0" "p = 0" "s' = s0"
  | (found) "fst (InitEntrypoints os s) = 0" "find_entrypoint pn 0 s0 = Inr (Some p)" "s' = s0"
  | (full) "fst (InitEntrypoints os s) = 0" "find_entrypoint pn 0 s0 = Inr None"
      "\<not> entrypointCount s0 < GENERATED_ENTRYPOINT_MAX" "p = 0" "s' = s0"
  | (dup_failed) "fst (InitEntrypoints os s) = 0" "find_entrypoint pn 0 s0 = Inr None"
      "entrypointCount s0 < GENERATED_ENTRYPOINT_MAX" "\<not> dup_ok" "p = 0"
      "s' = strdup_failed pn s0"
  | (inserted) "fst (InitEntrypoints os s) = 0" "find_entrypoint pn 0 s0 = Inr None"
      "entrypointCount s0 < GENERATED_ENTRYPOINT_MAX" "dup_ok"
      "\<not> (isa b = USE_ARMV7_ASM \<and> stub_exec b s0 (entrypointCount s0) AND 1 = 0)"
      "p = stub_exec b s0 (entrypointCount s0)" "s' = inserted b pn s0"
proof (cases "fst (InitEntrypoints os s) \<noteq> 0")
  case True
  with g have "p = 0 \<and> s' = s0" by (simp add: generate_eq Let_def s0_def)
  with True init_failed show ?thesis by blast
next
  case ok: False
  show ?thesis
  proof (cases "find_entrypoint pn 0 s0")
    case (Inl f)
    with g ok show ?thesis by (simp add: generate_eq Let_def s0_def)
  next
    case (Inr r)
    show ?thesis
    proof (cases r)
      case (Some q)
      with g ok Inr have "p = q \<and> s' = s0" by (simp add: generate_eq Let_def s0_def)
      with ok Inr Some found show ?thesis by blast
    next
      case None
      show ?thesis
      proof (cases "entrypointCount s0 < GENERATED_ENTRYPOINT_MAX")
        case False
        with g ok Inr None have "p = 0 \<and> s' = s0" by (simp add: generate_eq Let_def s0_def)
        with ok Inr None False full show ?thesis by blast
      next
        case room: True
        show ?thesis
        proof (cases dup_ok)
          case False
          with g ok Inr None room have "p = 0 \<and> s' = strdup_failed pn s0"
            by (simp add: generate_eq Let_def s0_def strdup_failed_def)
          with ok Inr None room False dup_failed show ?thesis by blast
        next
          case True
          show ?thesis
          proof (cases "isa b = USE_ARMV7_ASM \<and> stub_exec b s0 (entrypointCount s0) AND 1 = 0")
            case a: True
            with g ok Inr None room True show ?thesis
              by (simp add: generate_eq Let_def s0_def)
          next
            case False
            with g ok Inr None room True
            have "p = stub_exec b s0 (entrypointCount s0) \<and> s' = inserted b pn s0"
              by (auto simp: generate_eq Let_def s0_def split: if_splits)
            with ok Inr None room True False inserted show ?thesis by blast
          qed
        qed
      qed
    qed
  qed
qed

lemma strdup_failed_names_inv:
  assumes inv: "names_inv s"
  shows "names_inv (strdup_failed pn s)"
  using inv names_inv_strdup_failed[OF inv]
  by (simp add: names_inv_def strdup_failed_def)

lemma generate_names_inv:
  assumes inv: "names_inv s" and g: "glvndGenerateEntrypoint b os dup_ok pn s = Inr (p, s')"
  shows "names_inv s'"
proof -
  have inv0: "names_inv (snd (InitEntrypoints os s))"
    using inv by (simp add: names_inv_def)
  from g show ?thesis
  proof (cases rule: generate_Inr_cases)
    case init_failed
    with inv0 show ?thesis by simp
  next
    case found
    with inv0 show ?thesis by simp
  next
    case full
    with inv0 show ?thesis by simp
  next
    case dup_failed
    with inv0 show ?thesis by (simp add: strdup_failed_names_inv)
  next
    case inserted
    with inv0 show ?thesis by (simp add: names_inv_inserted)
  qed
qed

lemma generate_no_NullDeref:
  assumes inv: "names_inv s"
  shows "glvndGenerateEntrypoint b os dup_ok pn s \<noteq> Inl NullDeref"
proof -
  let ?s0 = "snd (InitEntrypoints os s)"
  have "\<forall>j<entrypointCount ?s0. procName (entrypoints ?s0 j) \<noteq> None"
    using inv by (auto simp: names_inv_def)
  from find_entrypoint_no_fault[OF this, of pn 0] obtain r where
    "find_entrypoint pn 0 ?s0 = Inr r" by blast
  then show ?thesis
    by (simp add: generate_eq Let_def split: option.splits)
qed

lemma thumb_set:
  "(e::'p::len word) AND 1 = 0 \<Longrightarrow> (e + of_nat (i * STUB_ENTRY_SIZE) + 1) AND 1 \<noteq> 0"
  by (simp add: and_one_eq mod_2_eq_odd STUB_ENTRY_SIZE_def)

lemma stub_exec_thumb:
  "isa b = USE_ARMV7_ASM \<Longrightarrow> entrypointBufferExec s AND 1 = 0 \<Longrightarrow> stub_exec b s i AND 1 \<noteq> 0"
  unfolding stub_exec_def thumb_bit_def using thumb_set[of "entrypointBufferExec s" i] by simp

lemma slab_inv_init:
  "slab_inv b s \<Longrightarrow> os_ok os \<Longrightarrow> slab_inv b (snd (InitEntrypoints os s))"
  by (cases os)
     (auto simp: slab_inv_def InitEntrypoints_def Let_def stub_write_def stub_exec_def region_ok_def)

lemma init_ok_exec:
  "os_ok os \<Longrightarrow> fst (InitEntrypoints os s) = 0 \<Longrightarrow>
     entrypointBufferExec (snd (InitEntrypoints os s)) \<noteq> 0"
  by (cases os) (auto simp: InitEntrypoints_def Let_def region_ok_def split: if_splits)

lemma slab_inv_inserted:
  "slab_inv b s \<Longrightarrow> entrypointBufferExec s \<noteq> 0 \<Longrightarrow> slab_inv b (inserted b pn s)"
  by (auto simp: slab_inv_def inserted_def stub_write_def stub_exec_def less_Suc_eq)

lemma slab_inv_strdup_failed:
  "slab_inv b s \<Longrightarrow> slab_inv b (strdup_failed pn s)"
  by (auto simp: slab_inv_def strdup_failed_def stub_write_def stub_exec_def)

lemma generate_slab_inv:
  assumes inv: "slab_inv b s" and os: "os_ok os"
    and g: "glvndGenerateEntrypoint b os dup_ok pn s = Inr (p, s')"
  shows "slab_inv b s'"
proof -
  have inv0: "slab_inv b (snd (InitEntrypoints os s))"
    using inv os by (rule slab_inv_init)
  from g show ?thesis
  proof (cases rule: generate_Inr_cases)
    case init_failed
    with inv0 show ?thesis by simp
  next
    case found
    with inv0 show ?thesis by simp
  next
    case full
    with inv0 show ?thesis by simp
  next
    case dup_failed
    with inv0 show ?thesis by (simp add: slab_inv_strdup_failed)
  next
    case inserted
    from init_ok_exec[OF os inserted(1)] inv0 inserted(7) show ?thesis
      by (simp add: slab_inv_inserted)
  qed
qed

lemma find_entrypoint_fault_is_null:
  "find_entrypoint pn i s = Inl f \<Longrightarrow> f = NullDeref"
proof (induction pn i s rule: find_entrypoint.induct)
  case (1 pn i s)
  show ?case
  proof (cases "i < entrypointCount s")
    case False
    with "1.prems" show ?thesis by (simp add: find_entrypoint_end)
  next
    case True
    show ?thesis
    proof (cases "procName (entrypoints s i)")
      case None
      with True "1.prems" show ?thesis by (simp add: find_entrypoint_null)
    next
      case (Some nm)
      show ?thesis
      proof (cases "c_str pn = c_str nm")
        case True
        with \<open>i < entrypointCount s\<close> Some "1.prems" show ?thesis
          by (simp add: find_entrypoint_step)
      next
        case False
        then have ne: "strcmp pn nm \<noteq> 0" by (simp add: strcmp_eq_0_iff)
        have "find_entrypoint pn (i + 1) s = Inl f"
          using True Some False "1.prems" by (simp add: find_entrypoint_step)
        from "1.IH"[OF True Some ne this] show ?thesis .
      qed
    qed
  qed
qed

lemma generate_no_AssertFailed:
  assumes inv: "slab_inv b s" and os: "os_ok os"
  shows "glvndGenerateEntrypoint b os dup_ok pn s \<noteq> Inl AssertFailed"
proof (cases "fst (InitEntrypoints os s) = 0")
  case False
  then show ?thesis by (simp add: generate_eq Let_def)
next
  case True
  let ?s0 = "snd (InitEntrypoints os s)"
  have inv0: "slab_inv b ?s0" using inv os by (rule slab_inv_init)
  have "entrypointBufferExec ?s0 \<noteq> 0" using os True by (rule init_ok_exec)
  with inv0 have "entrypointBufferExec ?s0 AND 1 = 0"
    by (simp add: slab_inv_def region_ok_def)
  then have "isa b = USE_ARMV7_ASM \<longrightarrow> stub_exec b ?s0 (entrypointCount ?s0) AND 1 \<noteq> 0"
    by (simp add: stub_exec_thumb)
  then show ?thesis
    by (cases "find_entrypoint pn 0 ?s0")
       (auto simp: generate_eq Let_def split: option.splits dest: find_entrypoint_fault_is_null)
qed

lemma update_over_frame:
  "update_over b cb prm is (s, w) = Inr (s', w') \<Longrightarrow>
     entrypointCount s' = entrypointCount s
     \<and> entrypointBufferWrite s' = entrypointBufferWrite s
     \<and> entrypointBufferExec s' = entrypointBufferExec s
     \<and> (\<forall>j. procName (entrypoints s' j) = procName (entrypoints s j)
            \<and> entrypointWrite (entrypoints s' j) = entrypointWrite (entrypoints s j)
            \<and> entrypointExec (entrypoints s' j) = entrypointExec (entrypoints s j)
            \<and> (j \<notin> set is \<longrightarrow> entrypoints s' j = entrypoints s j))"
proof (induction "is" arbitrary: s w)
  case Nil
  then show ?case by simp
next
  case (Cons i "is")
  obtain addr w1 where cb: "cb (procName (entrypoints s i)) prm w = (addr, w1)"
    by (cases "cb (procName (entrypoints s i)) prm w")
  show ?case
  proof (cases "addr = 0")
    case True
    with Cons.prems cb have "update_over b cb prm is (s, w1) = Inr (s', w')" by simp
    from Cons.IH[OF this] show ?thesis by simp
  next
    case False
    let ?s1 = "s\<lparr>mem := patch (isa b) (entrypointWrite (entrypoints s i))
                             (entrypointExec (entrypoints s i)) addr (mem s),
                    trace := trace s @
                      (if isa b = USE_ARMV7_ASM
                       then [Call_clear_cache (entrypointExec (entrypoints s i) - 1)
                               (entrypointExec (entrypoints s i) - 1 + 12)]
                       else []),
                    entrypoints := (entrypoints s)(i := (entrypoints s i)\<lparr>assigned := 1\<rparr>)\<rparr>"
    from Cons.prems cb False have "update_over b cb prm is (?s1, w1) = Inr (s', w')"
      by (simp split: if_splits)
    from Cons.IH[OF this] show ?thesis by simp
  qed
qed

lemma update_over_fault:
  "update_over b cb prm is (s, w) = Inl f \<Longrightarrow> f = AssertFailed"
proof (induction "is" arbitrary: s w)
  case Nil
  then show ?case by simp
next
  case (Cons i "is")
  obtain addr w1 where cb: "cb (procName (entrypoints s i)) prm w = (addr, w1)"
    by (cases "cb (procName (entrypoints s i)) prm w")
  from Cons.prems cb Cons.IH show ?case
    by (auto split: if_splits)
qed

lemma update_over_total:
  "(isa b = USE_ARMV7_ASM \<longrightarrow> (\<forall>i\<in>set is. entrypointExec (entrypoints s i) AND 1 \<noteq> 0)) \<Longrightarrow>
     \<exists>s' w'. update_over b cb prm is (s, w) = Inr (s', w')"
proof (induction "is" arbitrary: s w)
  case Nil
  then show ?case by simp
next
  case (Cons i "is")
  obtain addr w1 where cb: "cb (procName (entrypoints s i)) prm w = (addr, w1)"
    by (cases "cb (procName (entrypoints s i)) prm w")
  show ?case
  proof (cases "addr = 0")
    case True
    have "\<exists>s' w'. update_over b cb prm is (s, w1) = Inr (s', w')"
      using Cons.prems by (intro Cons.IH) simp
    with cb True show ?thesis by simp
  next
    case False
    let ?s1 = "s\<lparr>mem := patch (isa b) (entrypointWrite (entrypoints s i))
                             (entrypointExec (entrypoints s i)) addr (mem s),
                    trace := trace s @
                      (if isa b = USE_ARMV7_ASM
                       then [Call_clear_cache (entrypointExec (entrypoints s i) - 1)
                               (entrypointExec (entrypoints s i) - 1 + 12)]
                       else []),
                    entrypoints := (entrypoints s)(i := (entrypoints s i)\<lparr>assigned := 1\<rparr>)\<rparr>"
    have "\<exists>s' w'. update_over b cb prm is (?s1, w1) = Inr (s', w')"
      using Cons.prems by (intro Cons.IH) simp
    with cb False Cons.prems show ?thesis by simp
  qed
qed

lemma glvndUpdateEntrypoints_eq:
  "glvndUpdateEntrypoints b cb prm (s, w) = update_over b cb prm (unassigned s) (s, w)"
  by (simp add: glvndUpdateEntrypoints_def update_loop_eq unassigned_def)

lemma set_unassigned: "set (unassigned s) \<subseteq> {i. i < entrypointCount s}"
  by (auto simp: unassigned_def)

lemma update_names_inv:
  assumes inv: "names_inv s" and u: "glvndUpdateEntrypoints b cb prm (s, w) = Inr (s', w')"
  shows "names_inv s'"
proof -
  note fr = update_over_frame[OF u[unfolded glvndUpdateEntrypoints_eq]]
  have out: "\<And>j. entrypointCount s \<le> j \<Longrightarrow> entrypoints s' j = entrypoints s j"
    using fr set_unassigned[of s] by auto
  show ?thesis
    using inv fr out unfolding names_inv_def by simp
qed

lemma update_slab_inv:
  assumes inv: "slab_inv b s" and u: "glvndUpdateEntrypoints b cb prm (s, w) = Inr (s', w')"
  shows "slab_inv b s'"
proof -
  note fr = update_over_frame[OF u[unfolded glvndUpdateEntrypoints_eq]]
  show ?thesis
    using inv fr unfolding slab_inv_def stub_write_def stub_exec_def by simp
qed

lemma slab_inv_thumb:
  assumes inv: "slab_inv b s" and arm: "isa b = USE_ARMV7_ASM" and i: "i < entrypointCount s"
  shows "entrypointExec (entrypoints s i) AND 1 \<noteq> 0"
proof -
  from inv i have ne: "entrypointBufferExec s \<noteq> 0" by (auto simp: slab_inv_def)
  with inv have "entrypointBufferExec s AND 1 = 0" by (simp add: slab_inv_def region_ok_def)
  from stub_exec_thumb[OF arm this, of i] inv i show ?thesis by (simp add: slab_inv_def)
qed

lemma update_total:
  assumes inv: "slab_inv b s"
  shows "\<exists>s' w'. glvndUpdateEntrypoints b cb prm (s, w) = Inr (s', w')"
  unfolding glvndUpdateEntrypoints_eq
  using slab_inv_thumb[OF inv] set_unassigned[of s]
  by (intro update_over_total) auto

lemma update_no_NullDeref:
  "glvndUpdateEntrypoints b cb prm (s, w) \<noteq> Inl NullDeref"
  using update_over_fault[of b cb prm "unassigned s" s w NullDeref]
  by (auto simp: glvndUpdateEntrypoints_eq)

lemma free_names_inv: "names_inv s \<Longrightarrow> names_inv (glvndFreeEntrypoints s)"
  by (simp add: names_inv_def glvndFreeEntrypoints_closed)

lemma free_slab_inv: "slab_inv b s \<Longrightarrow> slab_inv b (glvndFreeEntrypoints s)"
  by (auto simp: slab_inv_def glvndFreeEntrypoints_closed)

lemma initial_names_inv: "names_inv (initial_state m)"
  by (simp add: names_inv_def initial_state_def)

lemma initial_slab_inv: "slab_inv b (initial_state m)"
  by (simp add: slab_inv_def initial_state_def)

lemma exec_call_names_inv:
  assumes inv: "names_inv s" and e: "exec_call b c (s, w) = Inr (r, s', w')"
  shows "names_inv s'"
proof (cases c)
  case (Generate pn os dup_ok)
  with e obtain p where "glvndGenerateEntrypoint b os dup_ok pn s = Inr (p, s')"
    by (auto split: sum.splits)
  with inv show ?thesis by (rule generate_names_inv)
next
  case (Update cb prm)
  with e have "glvndUpdateEntrypoints b cb prm (s, w) = Inr (s', w')"
    by (auto split: sum.splits)
  with inv show ?thesis by (rule update_names_inv)
next
  case Free
  with e inv show ?thesis by (auto simp: free_names_inv)
qed

lemma exec_call_no_NullDeref:
  assumes inv: "names_inv s"
  shows "exec_call b c (s, w) \<noteq> Inl NullDeref"
proof (cases c)
  case (Generate pn os dup_ok)
  with generate_no_NullDeref[OF inv, of b os dup_ok pn] show ?thesis
    by (auto split: sum.splits)
next
  case (Update cb prm)
  with update_no_NullDeref[of b cb prm s w] show ?thesis
    by (auto split: sum.splits)
next
  case Free
  then show ?thesis by simp
qed

lemma exec_call_slab_inv:
  assumes inv: "slab_inv b s" and ok: "call_ok c" and e: "exec_call b c (s, w) = Inr (r, s', w')"
  shows "slab_inv b s'"
proof (cases c)
  case (Generate pn os dup_ok)
  with e obtain p where "glvndGenerateEntrypoint b os dup_ok pn s = Inr (p, s')"
    by (auto split: sum.splits)
  with inv ok Generate show ?thesis by (auto intro: generate_slab_inv)
next
  case (Update cb prm)
  with e have "glvndUpdateEntrypoints b cb prm (s, w) = Inr (s', w')"
    by (auto split: sum.splits)
  with inv show ?thesis by (rule update_slab_inv)
next
  case Free
  with e inv show ?thesis by (auto simp: free_slab_inv)
qed

lemma generate_total:
  assumes n: "names_inv s" and sl: "slab_inv b s" and os: "os_ok os"
  shows "\<exists>p s'. glvndGenerateEntrypoint b os dup_ok pn s = Inr (p, s')"
proof (cases "glvndGenerateEntrypoint b os dup_ok pn s")
  case (Inl f)
  with generate_no_NullDeref[OF n, of b os dup_ok pn]
    generate_no_AssertFailed[OF sl os, of dup_ok pn]
  show ?thesis by (cases f) auto
next
  case (Inr x)
  then show ?thesis by (cases x) auto
qed

lemma exec_call_total:
  assumes n: "names_inv s" and sl: "slab_inv b s" and ok: "call_ok c"
  shows "\<exists>r s' w'. exec_call b c (s, w) = Inr (r, s', w')"
proof (cases c)
  case (Generate pn os dup_ok)
  with generate_total[OF n sl, of os dup_ok pn] ok show ?thesis by auto
next
  case (Update cb prm)
  with update_total[OF sl, of cb prm w] show ?thesis by auto
next
  case Free
  then show ?thesis by simp
qed

lemma run_names_inv:
  "names_inv s \<Longrightarrow> run b cs (s, w) = Inr (rs, s', w') \<Longrightarrow> names_inv s'"
proof (induction cs arbitrary: s w rs)
  case Nil
  then show ?case by simp
next
  case (Cons c cs)
  from Cons.prems(2) obtain r s1 w1 rs1 where
    e: "exec_call b c (s, w) = Inr (r, s1, w1)" and r: "run b cs (s1, w1) = Inr (rs1, s', w')"
    by (auto split: sum.splits)
  from exec_call_names_inv[OF Cons.prems(1) e] r show ?case by (rule Cons.IH)
qed

lemma run_no_NullDeref:
  "names_inv s \<Longrightarrow> run b cs (s, w) \<noteq> Inl NullDeref"
proof (induction cs arbitrary: s w)
  case Nil
  then show ?case by simp
next
  case (Cons c cs)
  show ?case
  proof (cases "exec_call b c (s, w)")
    case (Inl f)
    with exec_call_no_NullDeref[OF Cons.prems, of b c w] show ?thesis by auto
  next
    case (Inr x)
    obtain r s1 w1 where x: "x = (r, s1, w1)" by (cases x) auto
    from exec_call_names_inv[OF Cons.prems Inr[unfolded x]] have "names_inv s1" .
    from Cons.IH[OF this, of w1] Inr x show ?thesis by (auto split: sum.splits)
  qed
qed

lemma run_slab_inv:
  "slab_inv b s \<Longrightarrow> \<forall>c\<in>set cs. call_ok c \<Longrightarrow> run b cs (s, w) = Inr (rs, s', w') \<Longrightarrow>
     slab_inv b s'"
proof (induction cs arbitrary: s w rs)
  case Nil
  then show ?case by simp
next
  case (Cons c cs)
  from Cons.prems(3) obtain r s1 w1 rs1 where
    e: "exec_call b c (s, w) = Inr (r, s1, w1)" and r: "run b cs (s1, w1) = Inr (rs1, s', w')"
    by (auto split: sum.splits)
  have "slab_inv b s1" using Cons.prems(1,2) e by (auto intro: exec_call_slab_inv)
  from this _ r show ?case by (rule Cons.IH) (use Cons.prems(2) in simp)
qed

lemma run_total:
  "names_inv s \<Longrightarrow> slab_inv b s \<Longrightarrow> \<forall>c\<in>set cs. call_ok c \<Longrightarrow>
     \<exists>rs s' w'. run b cs (s, w) = Inr (rs, s', w')"
proof (induction cs arbitrary: s w)
  case Nil
  then show ?case by simp
next
  case (Cons c cs)
  from exec_call_total[OF Cons.prems(1,2), of c w] Cons.prems(3) obtain r s1 w1 where
    e: "exec_call b c (s, w) = Inr (r, s1, w1)" by auto
  have n1: "names_inv s1" using Cons.prems(1) e by (rule exec_call_names_inv)
  have s1: "slab_inv b s1" using Cons.prems(2,3) e by (auto intro: exec_call_slab_inv)
  from Cons.IH[OF n1 s1, of w1] Cons.prems(3) obtain rs s' w' where
    "run b cs (s1, w1) = Inr (rs, s', w')" by auto
  with e show ?case by simp
qed


section \<open>Teardown\<close>

text \<open>
  Claim C8. Calling \<open>glvndFreeEntrypoints\<close> twice leaves the state that calling it once
  leaves. On a module with no live record and no slab it changes nothing, so it calls
  neither the allocator nor a deallocator. After it the counter is zero, every record
  that was live is cleared and the others are as before (so the table is the initial
  one when the records beyond the counter were clear), memory is untouched, the slab is
  handed back through \<open>FreeExecPages\<close> exactly when the executable base was set, and
  a following \<open>glvndGenerateEntrypoint\<close> whose allocation and name copy succeed fills
  slot 0 of the new slab.
\<close>

theorem free_idempotent:
  fixes s :: "'p::len word state"
  shows "glvndFreeEntrypoints (glvndFreeEntrypoints s) = glvndFreeEntrypoints s
    \<and> (entrypointCount s = 0 \<and> entrypointBufferExec s = 0 \<longrightarrow> glvndFreeEntrypoints s = s)
    \<and> entrypointCount (glvndFreeEntrypoints s) = 0
    \<and> (\<forall>i. entrypoints (glvndFreeEntrypoints s) i =
             (if i < entrypointCount s then zero_entry else entrypoints s i))
    \<and> entrypointBufferExec (glvndFreeEntrypoints s) = 0
    \<and> mem (glvndFreeEntrypoints s) = mem s
    \<and> (entrypointBufferExec s \<noteq> 0 \<longrightarrow>
          entrypointBufferWrite (glvndFreeEntrypoints s) = 0
          \<and> trace (glvndFreeEntrypoints s) =
              trace s @ map (\<lambda>j. Call_free (procName (entrypoints s j))) [0..<entrypointCount s]
              @ [Call_FreeExecPages (STUB_ENTRY_SIZE * GENERATED_ENTRYPOINT_MAX)
                   (entrypointBufferWrite s) (entrypointBufferExec s)])
    \<and> (entrypointBufferExec s = 0 \<longrightarrow>
          entrypointBufferWrite (glvndFreeEntrypoints s) = entrypointBufferWrite s
          \<and> trace (glvndFreeEntrypoints s) =
              trace s @ map (\<lambda>j. Call_free (procName (entrypoints s j))) [0..<entrypointCount s])
    \<and> ((\<forall>i. entrypointCount s \<le> i \<longrightarrow> entrypoints s i = zero_entry)
          \<and> (entrypointBufferExec s = 0 \<longrightarrow> entrypointBufferWrite s = 0) \<longrightarrow>
          glvndFreeEntrypoints s = (initial_state (mem s))\<lparr>trace := trace (glvndFreeEntrypoints s)\<rparr>)
    \<and> (region_ok w e \<longrightarrow>
          (\<exists>s'. glvndGenerateEntrypoint b (Allocated w e) True pn (glvndFreeEntrypoints s)
                  = Inr (e + thumb_bit b, s')
             \<and> entrypointCount s' = 1
             \<and> entrypointBufferWrite s' = w \<and> entrypointBufferExec s' = e
             \<and> entrypoints s' 0 = \<lparr>procName = Some (c_str pn), entrypointWrite = w,
                                     entrypointExec = e + thumb_bit b, assigned = 0\<rparr>))"
proof -
  let ?f = "glvndFreeEntrypoints s"
  have idem: "glvndFreeEntrypoints ?f = ?f"
    by (subst (1) glvndFreeEntrypoints_closed) (auto simp: glvndFreeEntrypoints_closed intro!: state.equality)
  have noop: "entrypointCount s = 0 \<and> entrypointBufferExec s = 0 \<longrightarrow> ?f = s"
    by (auto simp: glvndFreeEntrypoints_closed intro!: state.equality)
  have pristine: "(\<forall>i. entrypointCount s \<le> i \<longrightarrow> entrypoints s i = zero_entry)
          \<and> (entrypointBufferExec s = 0 \<longrightarrow> entrypointBufferWrite s = 0) \<longrightarrow>
          ?f = (initial_state (mem s))\<lparr>trace := trace ?f\<rparr>"
    by (auto simp: glvndFreeEntrypoints_closed initial_state_def fun_eq_iff intro!: state.equality)
  have gen: "\<exists>s'. glvndGenerateEntrypoint b (Allocated w e) True pn ?f = Inr (e + thumb_bit b, s')
             \<and> entrypointCount s' = 1
             \<and> entrypointBufferWrite s' = w \<and> entrypointBufferExec s' = e
             \<and> entrypoints s' 0 = \<lparr>procName = Some (c_str pn), entrypointWrite = w,
                                     entrypointExec = e + thumb_bit b, assigned = 0\<rparr>"
    if ok: "region_ok w e"
  proof -
    have e0: "(e + 1) AND 1 \<noteq> 0" using ok by (rule region_ok_thumb)
    show ?thesis
      using e0
      by (simp add: glvndGenerateEntrypoint_def InitEntrypoints_def glvndFreeEntrypoints_closed
          find_entrypoint_empty GENERATED_ENTRYPOINT_MAX_def Let_def strdup_def
          GenerateEntrypointFunc_eq stub_exec_def stub_write_def thumb_bit_def)
  qed
  show ?thesis
    using idem noop pristine gen
    by (simp add: glvndFreeEntrypoints_closed)
qed

theorem free_idempotent_witness:
  "(entrypointBufferExec ex_state1 \<noteq> 0 \<and> region_ok (0x3000::32 word) 0x4000)
   \<and> glvndFreeEntrypoints (glvndFreeEntrypoints ex_state1) = glvndFreeEntrypoints ex_state1
   \<and> (entrypointBufferWrite (glvndFreeEntrypoints ex_state1) = 0
        \<and> trace (glvndFreeEntrypoints ex_state1) =
            [Call_free (Some ''glFoo''), Call_FreeExecPages 65536 0x1000 0x2000])
   \<and> glvndFreeEntrypoints ex_state1 =
        (initial_state (\<lambda>a. 0))
          \<lparr>trace := [Call_free (Some ''glFoo''), Call_FreeExecPages 65536 0x1000 0x2000]\<rparr>
   \<and> (\<exists>s'. glvndGenerateEntrypoint ex_build (Allocated 0x3000 0x4000) True ''glBar''
               (glvndFreeEntrypoints ex_state1) = Inr (0x4000, s')
          \<and> entrypointCount s' = 1)
   \<and> (entrypointCount (initial_state (\<lambda>a. 0) :: 32 word state) = 0
        \<and> entrypointBufferExec (initial_state (\<lambda>a. 0) :: 32 word state) = 0)
   \<and> glvndFreeEntrypoints (initial_state (\<lambda>a. 0) :: 32 word state) = initial_state (\<lambda>a. 0)
   \<and> trace (glvndFreeEntrypoints (initial_state (\<lambda>a. 0) :: 32 word state)) = []"
proof -
  let ?i = "initial_state (\<lambda>a. 0) :: 32 word state"
  note T = free_idempotent [where s = ex_state1 and w = "0x3000" and e = "0x4000"
      and b = ex_build and pn = "''glBar''"]
  note T0 = free_idempotent [where s = ?i]
  have h1: "entrypointBufferExec ex_state1 \<noteq> 0"
    by (simp add: ex_state1_def)
  have h2: "region_ok (0x3000::32 word) 0x4000"
    by (simp add: region_ok_def STUB_ENTRY_SIZE_def GENERATED_ENTRYPOINT_MAX_def)
  have h3: "(\<forall>i. entrypointCount ex_state1 \<le> i \<longrightarrow> entrypoints ex_state1 i = zero_entry)
      \<and> (entrypointBufferExec ex_state1 = 0 \<longrightarrow> entrypointBufferWrite ex_state1 = 0)"
    by (simp add: ex_state1_def)
  have h0: "entrypointCount ?i = 0 \<and> entrypointBufferExec ?i = 0"
    by (simp add: initial_state_def)
  have A: "glvndFreeEntrypoints (glvndFreeEntrypoints ex_state1) = glvndFreeEntrypoints ex_state1"
    using T by (rule conjunct1)
  have B: "entrypointBufferWrite (glvndFreeEntrypoints ex_state1) = 0
        \<and> trace (glvndFreeEntrypoints ex_state1) =
            [Call_free (Some ''glFoo''), Call_FreeExecPages 65536 0x1000 0x2000]"
    using T h1 by (simp add: ex_state1_def STUB_ENTRY_SIZE_def GENERATED_ENTRYPOINT_MAX_def)
  have P: "glvndFreeEntrypoints ex_state1 =
        (initial_state (\<lambda>a. 0))
          \<lparr>trace := [Call_free (Some ''glFoo''), Call_FreeExecPages 65536 0x1000 0x2000]\<rparr>"
  proof -
    from T h3 have "glvndFreeEntrypoints ex_state1 =
        (initial_state (mem ex_state1))\<lparr>trace := trace (glvndFreeEntrypoints ex_state1)\<rparr>"
      by blast
    with B show ?thesis by (simp add: ex_state1_def)
  qed
  have C: "\<exists>s'. glvndGenerateEntrypoint ex_build (Allocated 0x3000 0x4000) True ''glBar''
               (glvndFreeEntrypoints ex_state1) = Inr (0x4000, s')
          \<and> entrypointCount s' = 1"
    using T h2 by (auto simp: thumb_bit_def ex_build_def)
  have D: "glvndFreeEntrypoints ?i = ?i"
    using T0 h0 by blast
  have E: "trace (glvndFreeEntrypoints ?i) = []"
  proof -
    from T0 h0 have "trace (glvndFreeEntrypoints ?i) =
        trace ?i @ map (\<lambda>j. Call_free (procName (entrypoints ?i j))) [0..<entrypointCount ?i]"
      by blast
    then show ?thesis by (simp add: initial_state_def)
  qed
  show ?thesis
    using h1 h2 h0 A B P C D E by blast
qed

lemmas eval_simps = ex_build_def initial_state_def generate_eq InitEntrypoints_def
  Let_def find_entrypoint.simps strcmp_eq_0_iff c_str_def glvndUpdateEntrypoints_eq unassigned_def
  inserted_def strdup_failed_def glvndFreeEntrypoints_closed GENERATED_ENTRYPOINT_MAX_def
  STUB_ENTRY_SIZE_def stub_exec_def stub_write_def thumb_bit_def zero_entry_def

section \<open>Live records have names\<close>

text \<open>
  Claim C10. Whatever calls of \<open>glvndGenerateEntrypoint\<close>, \<open>glvndUpdateEntrypoints\<close> and
  \<open>glvndFreeEntrypoints\<close> are made from the initial state, with whatever answers of the
  allocator, of \<open>strdup\<close> and of the callbacks, no call reads through a null name
  pointer; in the state that a sequence of calls leaves, every record below the counter
  has a non-null name, and the scan of a further \<open>glvndGenerateEntrypoint\<close> does not read
  through a null name either.
\<close>

theorem live_names_never_null:
  "run b cs (initial_state m, w) \<noteq> Inl NullDeref
   \<and> (\<forall>rs s w'. run b cs (initial_state m, w) = Inr (rs, s, w') \<longrightarrow>
         (\<forall>i<entrypointCount s. procName (entrypoints s i) \<noteq> None)
         \<and> (\<forall>os dup_ok pn. glvndGenerateEntrypoint b os dup_ok pn s \<noteq> Inl NullDeref))"
proof -
  have a: "run b cs (initial_state m, w) \<noteq> Inl NullDeref"
    using initial_names_inv by (rule run_no_NullDeref)
  have b: "(\<forall>i<entrypointCount s. procName (entrypoints s i) \<noteq> None)
         \<and> (\<forall>os dup_ok pn. glvndGenerateEntrypoint b os dup_ok pn s \<noteq> Inl NullDeref)"
    if "run b cs (initial_state m, w) = Inr (rs, s, w')" for rs s w'
  proof -
    have inv: "names_inv s" using initial_names_inv that by (rule run_names_inv)
    then have "\<forall>i<entrypointCount s. procName (entrypoints s i) \<noteq> None"
      by (auto simp: names_inv_def)
    with generate_no_NullDeref[OF inv] show ?thesis by blast
  qed
  from a b show ?thesis by blast
qed

theorem live_names_never_null_witness:
  "run ex_build ex_calls (initial_state (\<lambda>a. 0), []) \<noteq> Inl NullDeref
   \<and> (\<exists>rs s w'. run ex_build ex_calls (initial_state (\<lambda>a. 0), []) = Inr (rs, s, w')
         \<and> entrypointCount s = 1
         \<and> (\<forall>i<entrypointCount s. procName (entrypoints s i) \<noteq> None))"
proof -
  have "\<exists>rs s w'. run ex_build ex_calls (initial_state (\<lambda>a. 0), []) = Inr (rs, s, w')
         \<and> entrypointCount s = 1"
    by (simp add: ex_calls_def eval_simps)
  then show ?thesis
    using live_names_never_null [of ex_build ex_calls "\<lambda>a. 0" "[]"] by blast
qed

section \<open>Slab initialisation\<close>

text \<open>
  Claim C9. \<open>InitEntrypoints\<close> on a state whose executable base is set succeeds, changes
  nothing and does not call the allocator; after a successful allocation with a non-null
  executable base a second call is such a call. When the executable base is null the
  allocator is called once: on success both bases are set, on failure the function
  reports \<open>-1\<close> and leaves both bases as they were, and \<open>glvndGenerateEntrypoint\<close>
  returns null having changed nothing but the trace. A following
  \<open>glvndGenerateEntrypoint\<close> calls the allocator again and, when that succeeds with a
  well-formed region, fills slot 0. In every state reached from the initial one with
  well-formed allocator answers the writable base is null exactly when the executable
  base is, and then no record is live.
\<close>

theorem init_idempotent_failure_atomic:
  fixes s :: "'p::len word state"
  shows
  "(entrypointBufferExec s \<noteq> 0 \<longrightarrow> InitEntrypoints os s = (0, s))
   \<and> (e \<noteq> 0 \<longrightarrow>
        InitEntrypoints os (snd (InitEntrypoints (Allocated w e) s))
          = (0, snd (InitEntrypoints (Allocated w e) s)))
   \<and> (entrypointBufferExec s = 0 \<longrightarrow>
        InitEntrypoints (Allocated w e) s =
          (0, s\<lparr>trace := trace s @ [Call_AllocExecPages (STUB_ENTRY_SIZE * GENERATED_ENTRYPOINT_MAX)],
                 entrypointBufferWrite := w, entrypointBufferExec := e\<rparr>)
        \<and> InitEntrypoints AllocFailed s =
          (- 1, s\<lparr>trace := trace s @ [Call_AllocExecPages (STUB_ENTRY_SIZE * GENERATED_ENTRYPOINT_MAX)]\<rparr>)
        \<and> glvndGenerateEntrypoint b AllocFailed dup_ok pn s =
          Inr (0, s\<lparr>trace := trace s @ [Call_AllocExecPages (STUB_ENTRY_SIZE * GENERATED_ENTRYPOINT_MAX)]\<rparr>))
   \<and> (entrypointBufferExec s = 0 \<and> entrypointCount s = 0 \<and> region_ok w e \<longrightarrow>
        (\<exists>s2 tr. glvndGenerateEntrypoint b (Allocated w e) True pn
                    (snd (InitEntrypoints AllocFailed s)) = Inr (e + thumb_bit b, s2)
           \<and> entrypointBufferWrite s2 = w \<and> entrypointBufferExec s2 = e
           \<and> entrypointCount s2 = 1
           \<and> trace s2 = trace s @
                [Call_AllocExecPages (STUB_ENTRY_SIZE * GENERATED_ENTRYPOINT_MAX),
                 Call_AllocExecPages (STUB_ENTRY_SIZE * GENERATED_ENTRYPOINT_MAX)] @ tr))
   \<and> ((\<forall>c\<in>set cs. call_ok c) \<and> run b cs (initial_state m, w0) = Inr (rs, t, wt) \<longrightarrow>
        (entrypointBufferWrite t = 0 \<longleftrightarrow> entrypointBufferExec t = 0)
        \<and> (entrypointBufferExec t = 0 \<longrightarrow> entrypointCount t = 0))"
proof -
  let ?A = "Call_AllocExecPages (STUB_ENTRY_SIZE * GENERATED_ENTRYPOINT_MAX) :: 'p word event"
  have a: "entrypointBufferExec s \<noteq> 0 \<longrightarrow> InitEntrypoints os s = (0, s)"
    by (simp add: InitEntrypoints_def)
  have b: "e \<noteq> 0 \<longrightarrow>
        InitEntrypoints os (snd (InitEntrypoints (Allocated w e) s))
          = (0, snd (InitEntrypoints (Allocated w e) s))"
    by (simp add: InitEntrypoints_def Let_def)
  have c: "entrypointBufferExec s = 0 \<longrightarrow>
        InitEntrypoints (Allocated w e) s =
          (0, s\<lparr>trace := trace s @ [?A], entrypointBufferWrite := w, entrypointBufferExec := e\<rparr>)
        \<and> InitEntrypoints AllocFailed s = (- 1, s\<lparr>trace := trace s @ [?A]\<rparr>)
        \<and> glvndGenerateEntrypoint b AllocFailed dup_ok pn s = Inr (0, s\<lparr>trace := trace s @ [?A]\<rparr>)"
    by (simp add: InitEntrypoints_def Let_def generate_eq)
  have d: "\<exists>s2 tr. glvndGenerateEntrypoint b (Allocated w e) True pn
                    (snd (InitEntrypoints AllocFailed s)) = Inr (e + thumb_bit b, s2)
           \<and> entrypointBufferWrite s2 = w \<and> entrypointBufferExec s2 = e
           \<and> entrypointCount s2 = 1
           \<and> trace s2 = trace s @ [?A, ?A] @ tr"
    if h: "entrypointBufferExec s = 0" "entrypointCount s = 0" "region_ok w e"
  proof -
    have e0: "(e + 1) AND 1 \<noteq> 0" using h(3) by (rule region_ok_thumb)
    show ?thesis
      using h(1,2) e0
      by (simp add: generate_eq InitEntrypoints_def Let_def find_entrypoint_empty
          GENERATED_ENTRYPOINT_MAX_def inserted_def stub_exec_def stub_write_def thumb_bit_def)
  qed
  have r: "(entrypointBufferWrite t = 0 \<longleftrightarrow> entrypointBufferExec t = 0)
        \<and> (entrypointBufferExec t = 0 \<longrightarrow> entrypointCount t = 0)"
    if h: "\<forall>c\<in>set cs. call_ok c" "run b cs (initial_state m, w0) = Inr (rs, t, wt)"
  proof -
    have "slab_inv b t" using initial_slab_inv h by (rule run_slab_inv)
    then show ?thesis by (auto simp: slab_inv_def region_ok_def)
  qed
  from a b c d r show ?thesis by blast
qed

theorem init_idempotent_failure_atomic_witness:
  "(entrypointBufferExec ex_state1 \<noteq> 0 \<and> InitEntrypoints AllocFailed ex_state1 = (0, ex_state1))
   \<and> ((0x4000 :: 32 word) \<noteq> 0
        \<and> InitEntrypoints AllocFailed
              (snd (InitEntrypoints (Allocated 0x3000 0x4000)
                     (initial_state (\<lambda>a. 0) :: 32 word state)))
            = (0, snd (InitEntrypoints (Allocated 0x3000 0x4000) (initial_state (\<lambda>a. 0)))))
   \<and> (entrypointBufferExec (initial_state (\<lambda>a. 0) :: 32 word state) = 0
        \<and> entrypointCount (initial_state (\<lambda>a. 0) :: 32 word state) = 0
        \<and> region_ok (0x3000 :: 32 word) 0x4000
        \<and> glvndGenerateEntrypoint ex_build AllocFailed True ''glFoo'' (initial_state (\<lambda>a. 0))
            = Inr (0, (initial_state (\<lambda>a. 0))\<lparr>trace := [Call_AllocExecPages 65536]\<rparr>)
        \<and> (\<exists>s2 tr. glvndGenerateEntrypoint ex_build (Allocated 0x3000 0x4000) True ''glFoo''
                      (snd (InitEntrypoints AllocFailed (initial_state (\<lambda>a. 0)))) = Inr (0x4000, s2)
              \<and> entrypointBufferWrite s2 = 0x3000 \<and> entrypointBufferExec s2 = 0x4000
              \<and> trace s2 = [Call_AllocExecPages 65536, Call_AllocExecPages 65536] @ tr))
   \<and> (list_all call_ok ex_calls
        \<and> (\<exists>rs t wt. run ex_build ex_calls (initial_state (\<lambda>a. 0), []) = Inr (rs, t, wt)
              \<and> (entrypointBufferWrite t = 0 \<longleftrightarrow> entrypointBufferExec t = 0)))"
proof -
  let ?i = "initial_state (\<lambda>a. 0) :: 32 word state"
  have h1: "entrypointBufferExec ex_state1 \<noteq> 0" by (simp add: ex_state1_def)
  have h2: "entrypointBufferExec ?i = 0 \<and> entrypointCount ?i = 0 \<and> region_ok (0x3000 :: 32 word) 0x4000"
    by (simp add: initial_state_def region_ok_def STUB_ENTRY_SIZE_def GENERATED_ENTRYPOINT_MAX_def)
  have h3: "\<forall>c\<in>set ex_calls. call_ok c"
    by (simp add: ex_calls_def region_ok_def STUB_ENTRY_SIZE_def GENERATED_ENTRYPOINT_MAX_def)
  have h4: "\<exists>rs t wt. run ex_build ex_calls (?i, []) = Inr (rs, t, wt)"
    by (simp add: ex_calls_def eval_simps)
  note T1 = init_idempotent_failure_atomic [where s = ex_state1 and os = AllocFailed]
  note T2 = init_idempotent_failure_atomic [where s = ?i and b = ex_build and w = "0x3000"
      and e = "0x4000" and dup_ok = True and pn = "''glFoo''" and cs = ex_calls and m = "\<lambda>a. 0"
      and ?w0.0 = "[]"]
  have A: "InitEntrypoints AllocFailed ex_state1 = (0, ex_state1)"
    using T1[THEN conjunct1] h1 by simp
  have B: "glvndGenerateEntrypoint ex_build AllocFailed True ''glFoo'' ?i
            = Inr (0, ?i\<lparr>trace := [Call_AllocExecPages 65536]\<rparr>)"
    using T2[THEN conjunct2, THEN conjunct2, THEN conjunct1] h2
    by (simp add: initial_state_def STUB_ENTRY_SIZE_def GENERATED_ENTRYPOINT_MAX_def)
  have C: "\<exists>s2 tr. glvndGenerateEntrypoint ex_build (Allocated 0x3000 0x4000) True ''glFoo''
                      (snd (InitEntrypoints AllocFailed ?i)) = Inr (0x4000, s2)
              \<and> entrypointBufferWrite s2 = 0x3000 \<and> entrypointBufferExec s2 = 0x4000
              \<and> trace s2 = [Call_AllocExecPages 65536, Call_AllocExecPages 65536] @ tr"
  proof -
    from T2[THEN conjunct2, THEN conjunct2, THEN conjunct2, THEN conjunct1] h2 obtain s2 tr where
      "glvndGenerateEntrypoint ex_build (Allocated 0x3000 0x4000) True ''glFoo''
          (snd (InitEntrypoints AllocFailed ?i)) = Inr (0x4000 + thumb_bit ex_build, s2)"
      "entrypointBufferWrite s2 = 0x3000" "entrypointBufferExec s2 = 0x4000"
      "trace s2 = trace ?i @ [Call_AllocExecPages (STUB_ENTRY_SIZE * GENERATED_ENTRYPOINT_MAX),
                 Call_AllocExecPages (STUB_ENTRY_SIZE * GENERATED_ENTRYPOINT_MAX)] @ tr"
      by blast
    then show ?thesis
      by (simp add: thumb_bit_def ex_build_def initial_state_def STUB_ENTRY_SIZE_def
          GENERATED_ENTRYPOINT_MAX_def)
  qed
  have D: "\<exists>rs t wt. run ex_build ex_calls (?i, []) = Inr (rs, t, wt)
              \<and> (entrypointBufferWrite t = 0 \<longleftrightarrow> entrypointBufferExec t = 0)"
  proof -
    from h4 obtain rs t wt where r: "run ex_build ex_calls (?i, []) = Inr (rs, t, wt)" by blast
    from T2[THEN conjunct2, THEN conjunct2, THEN conjunct2, THEN conjunct2, of rs t wt] h3 r
    have "entrypointBufferWrite t = 0 \<longleftrightarrow> entrypointBufferExec t = 0" by blast
    with r show ?thesis by blast
  qed
  have h5: "(0x4000 :: 32 word) \<noteq> 0" by simp
  have E: "InitEntrypoints AllocFailed (snd (InitEntrypoints (Allocated 0x3000 0x4000) ?i))
            = (0, snd (InitEntrypoints (Allocated 0x3000 0x4000) ?i))"
    using init_idempotent_failure_atomic [where s = ?i and os = AllocFailed and w = "0x3000"
        and e = "0x4000", THEN conjunct2, THEN conjunct1] h5 by blast
  have h3': "list_all call_ok ex_calls" using h3 by (simp add: list_all_iff)
  from h1 h2 h3' h5 A B C D E show ?thesis by blast
qed

lemma store_bytes_other:
  "(\<forall>k<length bs. x \<noteq> a + of_nat k) \<Longrightarrow> store_bytes m a bs x = m x"
proof (induction bs arbitrary: m a)
  case Nil
  then show ?case by simp
next
  case (Cons b bs)
  have "\<forall>k<length bs. x \<noteq> (a + 1) + of_nat k"
  proof (intro allI impI)
    fix k assume "k < length bs"
    then have "x \<noteq> a + of_nat (Suc k)" using Cons.prems by auto
    then show "x \<noteq> (a + 1) + of_nat k" by (simp add: ac_simps)
  qed
  from Cons.IH[OF this] have "store_bytes (m(a := b)) (a + 1) bs x = (m(a := b)) x" .
  moreover have "x \<noteq> a" using Cons.prems by (auto dest: spec[of _ 0])
  ultimately show ?case by simp
qed

lemma le_bytes_4: "le_bytes 4 v = [ucast v, ucast (drop_bit 8 v), ucast (drop_bit 16 v), ucast (drop_bit 24 v)]"
  by (simp add: le_bytes_def upt_rec)

lemma le_bytes_8: "le_bytes 8 v =
   [ucast v, ucast (drop_bit 8 v), ucast (drop_bit 16 v), ucast (drop_bit 24 v),
    ucast (drop_bit 32 v), ucast (drop_bit 40 v), ucast (drop_bit 48 v), ucast (drop_bit 56 v)]"
  by (simp add: le_bytes_def upt_rec)

lemma sint_rel32:
  "sint ((T::32 word) - E - 5) = signed_take_bit 31 (sint T - sint E - 5)"
proof -
  have "sint (T - E - 5) = signed_take_bit 31 (sint (T - E) - sint (5::32 word))"
    by (simp add: sint_word_ariths)
  also have "sint (T - E) = signed_take_bit 31 (sint T - sint E)"
    by (simp add: sint_word_ariths)
  also have "sint (5::32 word) = signed_take_bit 31 5" by simp
  finally show ?thesis by (simp only: signed_take_bit_diff)
qed

section \<open>Patching on 32-bit x86\<close>

text \<open>
  Claim C4. On the x86 build (pointers and \<open>intptr_t\<close> are 32 bits wide) patching the
  stub of a record with writable pointer \<open>code\<close> and executable pointer \<open>E\<close> for the
  target \<open>T\<close> stores the four bytes of \<open>T - E - 5\<close>, least significant first, at
  \<open>code + 1\<close> to \<open>code + 4\<close>; every other byte of memory and everything else in the
  state stay as they were. The difference is taken in the pointer-sized type: read as a
  signed number the stored word is \<open>sint T - sint E - 5\<close> whenever that number fits in
  32 bits (otherwise the machine subtraction wraps around).
\<close>

theorem x86_patch_rel32:
  fixes s :: "32 word state" and T :: "32 word" and entry :: nat
  assumes x86: "isa b = USE_X86_ASM"
  defines "code \<equiv> entrypointWrite (entrypoints s entry)"
    and "E \<equiv> entrypointExec (entrypoints s entry)"
  shows "\<exists>s'. SetDispatchFuncPointer b entry T s = Inr s'
     \<and> mem s' (code + 1) = ucast (T - E - 5)
     \<and> mem s' (code + 2) = ucast (drop_bit 8 (T - E - 5))
     \<and> mem s' (code + 3) = ucast (drop_bit 16 (T - E - 5))
     \<and> mem s' (code + 4) = ucast (drop_bit 24 (T - E - 5))
     \<and> (\<forall>a. a \<notin> {code + 1, code + 2, code + 3, code + 4} \<longrightarrow> mem s' a = mem s a)
     \<and> s' = s\<lparr>mem := mem s'\<rparr>
     \<and> (- (2 ^ 31) \<le> sint T - sint E - 5 \<and> sint T - sint E - 5 < 2 ^ 31 \<longrightarrow>
          sint (T - E - 5) = sint T - sint E - 5)"
proof -
  let ?v = "T - E - 5"
  let ?m = "store_bytes (mem s) (code + 1) (le_bytes 4 ?v)"
  have eq: "SetDispatchFuncPointer b entry T s = Inr (s\<lparr>mem := ?m\<rparr>)"
    using x86 by (simp add: SetDispatchFuncPointer_eq patch_def dispatch_bytes_def code_def E_def)
  have b1: "?m (code + 1) = ucast ?v" by (simp add: le_bytes_4)
  have b2: "?m (code + 2) = ucast (drop_bit 8 ?v)" by (simp add: le_bytes_4)
  have b3: "?m (code + 3) = ucast (drop_bit 16 ?v)" by (simp add: le_bytes_4)
  have b4: "?m (code + 4) = ucast (drop_bit 24 ?v)" by (simp add: le_bytes_4)
  have oth: "\<forall>a. a \<notin> {code + 1, code + 2, code + 3, code + 4} \<longrightarrow> ?m a = mem s a"
    by (simp add: le_bytes_4)
  have sg: "- (2 ^ 31) \<le> sint T - sint E - 5 \<and> sint T - sint E - 5 < 2 ^ 31 \<longrightarrow>
          sint ?v = sint T - sint E - 5"
    by (simp add: sint_rel32 signed_take_bit_int_eq_self)
  show ?thesis
    unfolding eq using b1 b2 b3 b4 oth sg by simp
qed

theorem x86_patch_rel32_witness:
  "isa ex_build = USE_X86_ASM
   \<and> (\<exists>s'. SetDispatchFuncPointer ex_build 0 0x1000 ex_state1 = Inr s'
         \<and> map (mem s') [0x1000, 0x1001, 0x1002, 0x1003, 0x1004, 0x1005]
             = [0, 0xFB, 0xEF, 0xFF, 0xFF, 0])
   \<and> sint (0x1000 - 0x2000 - 5 :: 32 word) = - 4101"
proof -
  have h: "isa ex_build = USE_X86_ASM" by (simp add: ex_build_def)
  have c: "entrypointWrite (entrypoints ex_state1 0) = 0x1000"
    "entrypointExec (entrypoints ex_state1 0) = 0x2000"
    "mem ex_state1 = (\<lambda>a. 0)"
    by (simp_all add: ex_state1_def)
  from x86_patch_rel32 [OF h, where s = ex_state1 and entry = 0 and T = "0x1000"] obtain s' where
    r: "SetDispatchFuncPointer ex_build 0 0x1000 ex_state1 = Inr s'"
    and b: "mem s' (0x1000 + 1) = ucast (0x1000 - 0x2000 - 5 :: 32 word)"
      "mem s' (0x1000 + 2) = ucast (drop_bit 8 (0x1000 - 0x2000 - 5 :: 32 word))"
      "mem s' (0x1000 + 3) = ucast (drop_bit 16 (0x1000 - 0x2000 - 5 :: 32 word))"
      "mem s' (0x1000 + 4) = ucast (drop_bit 24 (0x1000 - 0x2000 - 5 :: 32 word))"
    and o: "\<forall>a. a \<notin> {0x1000 + 1, 0x1000 + 2, 0x1000 + 3, 0x1000 + 4} \<longrightarrow> mem s' a = 0"
    and sg: "- (2 ^ 31) \<le> sint (0x1000 :: 32 word) - sint (0x2000 :: 32 word) - 5
             \<and> sint (0x1000 :: 32 word) - sint (0x2000 :: 32 word) - 5 < 2 ^ 31 \<longrightarrow>
          sint (0x1000 - 0x2000 - 5 :: 32 word) = sint (0x1000 :: 32 word) - sint (0x2000 :: 32 word) - 5"
    unfolding c by blast
  have "mem s' 0x1000 = 0" "mem s' 0x1005 = 0" using o by simp_all
  moreover have "mem s' 0x1001 = 0xFB" "mem s' 0x1002 = 0xEF" "mem s' 0x1003 = 0xFF" "mem s' 0x1004 = 0xFF"
    using b by simp_all
  moreover have "sint (0x1000 - 0x2000 - 5 :: 32 word) = - 4101" using sg by simp
  ultimately show ?thesis using h r by simp
qed

lemma odd_minus_one_even: "(x::'p::len word) AND 1 \<noteq> 0 \<Longrightarrow> (x - 1) AND 1 = 0"
  by (simp add: and_one_eq mod_2_eq_odd)

section \<open>Stubs on ARMv7 Thumb\<close>

text \<open>
  Claim C5. On the ARMv7 build (32-bit pointers) \<open>SetDispatchFuncPointer\<close> stores the
  four bytes of the target, least significant first, at offset 8 of the record's writable
  pointer and no other byte, fails its assertion when bit 0 of the record's executable
  pointer is clear, and otherwise flushes the cache over the 12 bytes that start at the
  executable pointer minus one, an even address. \<open>glvndGenerateEntrypoint\<close> on a fresh
  name, with the slab in place at an even executable base and room in the table, returns
  for slot \<open>i = entrypointCount\<close> the pointer \<open>exec_base + i * 16 + 1\<close>, whose bit 0
  is set, and its flush starts at the even address \<open>exec_base + i * 16\<close>.
\<close>

theorem thumb_stub_pointer_and_flush:
  fixes s :: "32 word state" and T :: "32 word" and entry :: nat
  assumes arm: "isa b = USE_ARMV7_ASM"
  defines "code \<equiv> entrypointWrite (entrypoints s entry)"
    and "exec \<equiv> entrypointExec (entrypoints s entry)"
    and "slot \<equiv> entrypointBufferExec s + of_nat (entrypointCount s * STUB_ENTRY_SIZE)"
  shows
    "(exec AND 1 = 0 \<longrightarrow> SetDispatchFuncPointer b entry T s = Inl AssertFailed)
     \<and> (exec AND 1 \<noteq> 0 \<longrightarrow>
          (\<exists>s'. SetDispatchFuncPointer b entry T s = Inr s'
             \<and> mem s' (code + 8) = ucast T
             \<and> mem s' (code + 9) = ucast (drop_bit 8 T)
             \<and> mem s' (code + 10) = ucast (drop_bit 16 T)
             \<and> mem s' (code + 11) = ucast (drop_bit 24 T)
             \<and> (\<forall>a. a \<notin> {code + 8, code + 9, code + 10, code + 11} \<longrightarrow> mem s' a = mem s a)
             \<and> trace s' = trace s @ [Call_clear_cache (exec - 1) (exec - 1 + 12)]
             \<and> (exec - 1) AND 1 = 0
             \<and> s' = s\<lparr>mem := mem s', trace := trace s'\<rparr>))
     \<and> (entrypointBufferExec s \<noteq> 0 \<and> entrypointBufferExec s AND 1 = 0
          \<and> find_entrypoint pn 0 s = Inr None
          \<and> entrypointCount s < GENERATED_ENTRYPOINT_MAX \<longrightarrow>
          (\<exists>s'. glvndGenerateEntrypoint b os True pn s = Inr (slot + 1, s')
             \<and> entrypointExec (entrypoints s' (entrypointCount s)) = slot + 1
             \<and> entrypointWrite (entrypoints s' (entrypointCount s))
                 = entrypointBufferWrite s + of_nat (entrypointCount s * STUB_ENTRY_SIZE)
             \<and> (slot + 1) AND 1 = 1 \<and> slot AND 1 = 0
             \<and> trace s' = trace s @ [Call_strdup pn, Call_clear_cache slot (slot + 12)]))"
proof -
  let ?m = "store_bytes (mem s) (code + 8) (le_bytes 4 (ucast T :: 32 word))"
  let ?s' = "s\<lparr>mem := ?m, trace := trace s @ [Call_clear_cache (exec - 1) (exec - 1 + 12)]\<rparr>"
  have a: "exec AND 1 = 0 \<longrightarrow> SetDispatchFuncPointer b entry T s = Inl AssertFailed"
    using arm by (simp add: SetDispatchFuncPointer_eq exec_def)
  have p: "\<exists>s'. SetDispatchFuncPointer b entry T s = Inr s'
             \<and> mem s' (code + 8) = ucast T
             \<and> mem s' (code + 9) = ucast (drop_bit 8 T)
             \<and> mem s' (code + 10) = ucast (drop_bit 16 T)
             \<and> mem s' (code + 11) = ucast (drop_bit 24 T)
             \<and> (\<forall>a. a \<notin> {code + 8, code + 9, code + 10, code + 11} \<longrightarrow> mem s' a = mem s a)
             \<and> trace s' = trace s @ [Call_clear_cache (exec - 1) (exec - 1 + 12)]
             \<and> (exec - 1) AND 1 = 0
             \<and> s' = s\<lparr>mem := mem s', trace := trace s'\<rparr>"
    if odd: "exec AND 1 \<noteq> 0"
  proof -
    have eq: "SetDispatchFuncPointer b entry T s = Inr ?s'"
      using arm odd
      by (simp add: SetDispatchFuncPointer_eq patch_def dispatch_bytes_def code_def exec_def)
    have b1: "?m (code + 8) = ucast T" by (simp add: le_bytes_4)
    have b2: "?m (code + 9) = ucast (drop_bit 8 T)" by (simp add: le_bytes_4)
    have b3: "?m (code + 10) = ucast (drop_bit 16 T)" by (simp add: le_bytes_4)
    have b4: "?m (code + 11) = ucast (drop_bit 24 T)" by (simp add: le_bytes_4)
    have oth: "\<forall>a. a \<notin> {code + 8, code + 9, code + 10, code + 11} \<longrightarrow> ?m a = mem s a"
      by (simp add: le_bytes_4)
    have ev: "(exec - 1) AND 1 = 0" using odd by (rule odd_minus_one_even)
    show ?thesis
      unfolding eq using b1 b2 b3 b4 oth ev by simp
  qed
  have g: "\<exists>s'. glvndGenerateEntrypoint b os True pn s = Inr (slot + 1, s')
             \<and> entrypointExec (entrypoints s' (entrypointCount s)) = slot + 1
             \<and> entrypointWrite (entrypoints s' (entrypointCount s))
                 = entrypointBufferWrite s + of_nat (entrypointCount s * STUB_ENTRY_SIZE)
             \<and> (slot + 1) AND 1 = 1 \<and> slot AND 1 = 0
             \<and> trace s' = trace s @ [Call_strdup pn, Call_clear_cache slot (slot + 12)]"
    if h: "entrypointBufferExec s \<noteq> 0" "entrypointBufferExec s AND 1 = 0"
      "find_entrypoint pn 0 s = Inr None" "entrypointCount s < GENERATED_ENTRYPOINT_MAX"
  proof -
    have ex: "stub_exec b s (entrypointCount s) = slot + 1"
      using arm by (simp add: stub_exec_def thumb_bit_def slot_def)
    have odd: "(slot + 1) AND 1 \<noteq> 0"
      unfolding slot_def using h(2) by (rule thumb_set)
    then have one: "(slot + 1) AND 1 = 1" by (simp add: and_one_eq mod_2_eq_odd)
    have ev: "slot AND 1 = 0" using odd_minus_one_even[OF odd] by simp
    have "glvndGenerateEntrypoint b os True pn s = Inr (slot + 1, inserted b pn s)"
      using h odd arm by (simp add: generate_eq InitEntrypoints_def ex)
    moreover have "entrypointExec (entrypoints (inserted b pn s) (entrypointCount s)) = slot + 1"
      by (simp add: inserted_def ex)
    moreover have "entrypointWrite (entrypoints (inserted b pn s) (entrypointCount s))
                 = entrypointBufferWrite s + of_nat (entrypointCount s * STUB_ENTRY_SIZE)"
      by (simp add: inserted_def stub_write_def)
    moreover have "trace (inserted b pn s) = trace s @ [Call_strdup pn, Call_clear_cache slot (slot + 12)]"
      using arm by (simp add: inserted_def ex)
    ultimately show ?thesis using one ev by blast
  qed
  from a p g show ?thesis by blast
qed

theorem thumb_stub_pointer_and_flush_witness:
  "isa ex_build_arm = USE_ARMV7_ASM
   \<and> SetDispatchFuncPointer ex_build_arm 1 0x7001 ex_state_arm = Inl AssertFailed
   \<and> (\<exists>s'. SetDispatchFuncPointer ex_build_arm 0 0x7001 ex_state_arm = Inr s'
         \<and> map (mem s') [0x1007, 0x1008, 0x1009, 0x100A, 0x100B, 0x100C] = [0, 0x01, 0x70, 0, 0, 0]
         \<and> trace s' = [Call_clear_cache 0x2000 0x200C])
   \<and> (\<exists>s'. glvndGenerateEntrypoint ex_build_arm AllocFailed True ''glBar'' ex_state_arm
               = Inr (0x2011, s')
         \<and> trace s' = [Call_strdup ''glBar'', Call_clear_cache 0x2010 0x201C])"
proof -
  have h: "isa ex_build_arm = USE_ARMV7_ASM" by (simp add: ex_build_arm_def)
  have c0: "entrypointWrite (entrypoints ex_state_arm 0) = 0x1000"
    "entrypointExec (entrypoints ex_state_arm 0) = 0x2001"
    "mem ex_state_arm = (\<lambda>a. 0)" "trace ex_state_arm = []"
    by (simp_all add: ex_state_arm_def)
  have c1: "entrypointExec (entrypoints ex_state_arm 1) AND 1 = 0"
    by (simp add: ex_state_arm_def zero_entry_def)
  have odd: "(0x2001 :: 32 word) AND 1 \<noteq> 0" by simp
  have hg: "entrypointBufferExec ex_state_arm \<noteq> 0 \<and> entrypointBufferExec ex_state_arm AND 1 = 0
          \<and> find_entrypoint ''glBar'' 0 ex_state_arm = Inr None
          \<and> entrypointCount ex_state_arm < GENERATED_ENTRYPOINT_MAX"
    by (simp add: ex_state_arm_def find_entrypoint.simps strcmp_eq_0_iff c_str_def
        GENERATED_ENTRYPOINT_MAX_def)
  have A: "SetDispatchFuncPointer ex_build_arm 1 0x7001 ex_state_arm = Inl AssertFailed"
    using thumb_stub_pointer_and_flush [OF h, where s = ex_state_arm and entry = 1 and T = "0x7001",
        THEN conjunct1] c1 by simp
  from thumb_stub_pointer_and_flush [OF h, where s = ex_state_arm and entry = 0 and T = "0x7001",
        THEN conjunct2, THEN conjunct1, unfolded c0] odd
  obtain s' where
    r: "SetDispatchFuncPointer ex_build_arm 0 0x7001 ex_state_arm = Inr s'"
    and b: "mem s' (0x1000 + 8) = ucast (0x7001 :: 32 word)"
      "mem s' (0x1000 + 9) = ucast (drop_bit 8 (0x7001 :: 32 word))"
      "mem s' (0x1000 + 10) = ucast (drop_bit 16 (0x7001 :: 32 word))"
      "mem s' (0x1000 + 11) = ucast (drop_bit 24 (0x7001 :: 32 word))"
    and o: "\<forall>a. a \<notin> {0x1000 + 8, 0x1000 + 9, 0x1000 + 10, 0x1000 + 11} \<longrightarrow> mem s' a = 0"
    and t: "trace s' = [] @ [Call_clear_cache (0x2001 - 1) (0x2001 - 1 + 12)]"
    by blast
  have "mem s' 0x1007 = 0" "mem s' 0x100C = 0" using o by simp_all
  moreover have "mem s' 0x1008 = 0x01" "mem s' 0x1009 = 0x70" "mem s' 0x100A = 0" "mem s' 0x100B = 0"
    using b by simp_all
  moreover have "trace s' = [Call_clear_cache 0x2000 0x200C]" using t by simp
  ultimately have B: "\<exists>s'. SetDispatchFuncPointer ex_build_arm 0 0x7001 ex_state_arm = Inr s'
         \<and> map (mem s') [0x1007, 0x1008, 0x1009, 0x100A, 0x100B, 0x100C] = [0, 0x01, 0x70, 0, 0, 0]
         \<and> trace s' = [Call_clear_cache 0x2000 0x200C]"
    using r by simp
  from thumb_stub_pointer_and_flush [OF h, where s = ex_state_arm and pn = "''glBar''"
        and os = AllocFailed, THEN conjunct2, THEN conjunct2] hg
  obtain s2 where
    "glvndGenerateEntrypoint ex_build_arm AllocFailed True ''glBar'' ex_state_arm =
       Inr (entrypointBufferExec ex_state_arm
              + of_nat (entrypointCount ex_state_arm * STUB_ENTRY_SIZE) + 1, s2)"
    "trace s2 = trace ex_state_arm @ [Call_strdup ''glBar'',
        Call_clear_cache (entrypointBufferExec ex_state_arm
              + of_nat (entrypointCount ex_state_arm * STUB_ENTRY_SIZE))
          (entrypointBufferExec ex_state_arm
              + of_nat (entrypointCount ex_state_arm * STUB_ENTRY_SIZE) + 12)]"
    by blast
  then have C: "\<exists>s'. glvndGenerateEntrypoint ex_build_arm AllocFailed True ''glBar'' ex_state_arm
               = Inr (0x2011, s')
         \<and> trace s' = [Call_strdup ''glBar'', Call_clear_cache 0x2010 0x201C]"
    by (simp add: ex_state_arm_def STUB_ENTRY_SIZE_def)
  from h A B C show ?thesis by blast
qed

lemma preserved_refl: "preserved s s"
  by (simp add: preserved_def)

lemma preserved_trans: "preserved s t \<Longrightarrow> preserved t u \<Longrightarrow> preserved s u"
  by (auto simp: preserved_def)

lemma generate_preserved:
  assumes g: "glvndGenerateEntrypoint b os dup_ok pn s = Inr (p, s')"
  shows "preserved s s'"
  using g
proof (cases rule: generate_Inr_cases)
  case init_failed
  then show ?thesis by (simp add: preserved_def)
next
  case found
  then show ?thesis by (simp add: preserved_def)
next
  case full
  then show ?thesis by (simp add: preserved_def)
next
  case dup_failed
  then show ?thesis by (simp add: preserved_def strdup_failed_def)
next
  case inserted
  then show ?thesis by (simp add: preserved_def inserted_def)
qed

lemma update_preserved:
  assumes u: "glvndUpdateEntrypoints b cb prm (s, w) = Inr (s', w')"
  shows "preserved s s'"
  using update_over_frame[OF u[unfolded glvndUpdateEntrypoints_eq]]
  by (simp add: preserved_def)

lemma exec_call_preserved:
  assumes nf: "\<not> is_Free c" and e: "exec_call b c (s, w) = Inr (r, s', w')"
  shows "preserved s s'"
proof (cases c)
  case (Generate pn os dup_ok)
  with e obtain p where "glvndGenerateEntrypoint b os dup_ok pn s = Inr (p, s')"
    by (auto split: sum.splits)
  then show ?thesis by (rule generate_preserved)
next
  case (Update cb prm)
  with e have "glvndUpdateEntrypoints b cb prm (s, w) = Inr (s', w')"
    by (auto split: sum.splits)
  then show ?thesis by (rule update_preserved)
next
  case Free
  with nf show ?thesis by simp
qed

lemma run_preserved:
  "\<forall>c\<in>set cs. \<not> is_Free c \<Longrightarrow> run b cs (s, w) = Inr (rs, s', w') \<Longrightarrow> preserved s s'"
proof (induction cs arbitrary: s w rs)
  case Nil
  then show ?case by (simp add: preserved_refl)
next
  case (Cons c cs)
  from Cons.prems(2) obtain r s1 w1 rs1 where
    e: "exec_call b c (s, w) = Inr (r, s1, w1)" and r: "run b cs (s1, w1) = Inr (rs1, s', w')"
    by (auto split: sum.splits)
  have "preserved s s1" using Cons.prems(1) e by (auto intro: exec_call_preserved)
  moreover have "preserved s1 s'" using Cons.prems(1) r by (auto intro: Cons.IH)
  ultimately show ?case by (rule preserved_trans)
qed

lemma unat_plus_of_nat:
  "unat (e::'p::len word) + k < 2 ^ LENGTH('p) \<Longrightarrow> unat (e + of_nat k) = unat e + k"
proof -
  assume a: "unat e + k < 2 ^ LENGTH('p)"
  then have k: "k < 2 ^ LENGTH('p)" by simp
  then have "unat (of_nat k :: 'p word) = k" by (simp add: unat_of_nat)
  with a show ?thesis by (simp add: unat_add_lem [THEN iffD1])
qed

lemma slot_unat:
  assumes r: "unat (e::'p::len word) + STUB_ENTRY_SIZE * GENERATED_ENTRYPOINT_MAX \<le> 2 ^ LENGTH('p)"
    and i: "i < GENERATED_ENTRYPOINT_MAX" and k: "k < STUB_ENTRY_SIZE"
  shows "unat (e + of_nat (i * STUB_ENTRY_SIZE) + of_nat k) = unat e + i * STUB_ENTRY_SIZE + k"
proof -
  have b: "i * STUB_ENTRY_SIZE + k < STUB_ENTRY_SIZE * GENERATED_ENTRYPOINT_MAX"
    using i k by (simp add: STUB_ENTRY_SIZE_def GENERATED_ENTRYPOINT_MAX_def)
  have "e + of_nat (i * STUB_ENTRY_SIZE) + of_nat k = e + of_nat (i * STUB_ENTRY_SIZE + k)"
    by simp
  also have "unat \<dots> = unat e + (i * STUB_ENTRY_SIZE + k)"
    using r b by (intro unat_plus_of_nat) simp
  finally show ?thesis by simp
qed

lemma thumb_bit_of_nat: "thumb_bit b = of_nat (if isa b = USE_ARMV7_ASM then 1 else 0)"
  by (simp add: thumb_bit_def)

lemma stub_unat:
  assumes n: "names_inv s" and sl: "slab_inv b s" and i: "i < entrypointCount s"
  shows "unat (entrypointExec (entrypoints s i))
           = unat (entrypointBufferExec s) + i * STUB_ENTRY_SIZE
             + (if isa b = USE_ARMV7_ASM then 1 else 0)"
    and "unat (entrypointWrite (entrypoints s i))
           = unat (entrypointBufferWrite s) + i * STUB_ENTRY_SIZE"
proof -
  from n i have im: "i < GENERATED_ENTRYPOINT_MAX" by (simp add: names_inv_def)
  from sl i have ne: "entrypointBufferExec s \<noteq> 0" by (auto simp: slab_inv_def)
  with sl have reg: "region_ok (entrypointBufferWrite s) (entrypointBufferExec s)"
    by (simp add: slab_inv_def)
  have k: "(if isa b = USE_ARMV7_ASM then 1 else 0) < STUB_ENTRY_SIZE" "0 < STUB_ENTRY_SIZE"
    by (simp_all add: STUB_ENTRY_SIZE_def)
  from sl i have "entrypointExec (entrypoints s i)
      = entrypointBufferExec s + of_nat (i * STUB_ENTRY_SIZE)
        + of_nat (if isa b = USE_ARMV7_ASM then 1 else 0)"
    by (simp add: slab_inv_def stub_exec_def thumb_bit_of_nat)
  also have "unat \<dots> = unat (entrypointBufferExec s) + i * STUB_ENTRY_SIZE
             + (if isa b = USE_ARMV7_ASM then 1 else 0)"
    using reg im k(1) by (intro slot_unat) (simp_all add: region_ok_def)
  finally show "unat (entrypointExec (entrypoints s i))
           = unat (entrypointBufferExec s) + i * STUB_ENTRY_SIZE
             + (if isa b = USE_ARMV7_ASM then 1 else 0)" .
  from sl i have "entrypointWrite (entrypoints s i)
      = entrypointBufferWrite s + of_nat (i * STUB_ENTRY_SIZE) + of_nat 0"
    by (simp add: slab_inv_def stub_write_def)
  also have "unat \<dots> = unat (entrypointBufferWrite s) + i * STUB_ENTRY_SIZE + 0"
    using reg im k(2) by (intro slot_unat) (simp_all add: region_ok_def)
  finally show "unat (entrypointWrite (entrypoints s i))
           = unat (entrypointBufferWrite s) + i * STUB_ENTRY_SIZE" by simp
qed

section \<open>Layout of the slab\<close>

text \<open>
  Claim C6. In every state reached from the initial one by calls whose allocator answers
  are well-formed, each live record \<open>i\<close> has the writable pointer
  \<open>write_base + i * 16\<close> and the executable pointer \<open>exec_base + i * 16\<close>, plus one on
  the Thumb build. Hence the pointers of the live records increase strictly with the
  index, which is the order of issue, and as long as no \<open>glvndFreeEntrypoints\<close> is
  called every live record keeps its name and its two pointers.
\<close>

theorem slab_layout_monotonic_stable:
  assumes ok: "\<forall>c\<in>set cs. call_ok c"
    and r: "run b cs (initial_state m, w0) = Inr (rs, s, w)"
  shows "STUB_ENTRY_SIZE = 16
    \<and> (\<forall>i<entrypointCount s.
          entrypointWrite (entrypoints s i)
            = entrypointBufferWrite s + of_nat (i * STUB_ENTRY_SIZE)
          \<and> entrypointExec (entrypoints s i)
            = entrypointBufferExec s + of_nat (i * STUB_ENTRY_SIZE) + thumb_bit b)
    \<and> (\<forall>i j. i < j \<and> j < entrypointCount s \<longrightarrow>
          entrypointExec (entrypoints s i) < entrypointExec (entrypoints s j)
          \<and> entrypointWrite (entrypoints s i) < entrypointWrite (entrypoints s j))
    \<and> (\<forall>cs2 rs2 s2 w2.
          (\<forall>c\<in>set cs2. \<not> is_Free c) \<and> run b cs2 (s, w) = Inr (rs2, s2, w2) \<longrightarrow>
          preserved s s2)"
proof -
  have n: "names_inv s" using initial_names_inv r by (rule run_names_inv)
  have sl: "slab_inv b s" using initial_slab_inv ok r by (rule run_slab_inv)
  have lay: "\<forall>i<entrypointCount s.
          entrypointWrite (entrypoints s i)
            = entrypointBufferWrite s + of_nat (i * STUB_ENTRY_SIZE)
          \<and> entrypointExec (entrypoints s i)
            = entrypointBufferExec s + of_nat (i * STUB_ENTRY_SIZE) + thumb_bit b"
    using sl by (simp add: slab_inv_def stub_write_def stub_exec_def)
  have mono: "entrypointExec (entrypoints s i) < entrypointExec (entrypoints s j)
          \<and> entrypointWrite (entrypoints s i) < entrypointWrite (entrypoints s j)"
    if "i < j \<and> j < entrypointCount s" for i j
  proof -
    from that have i: "i < entrypointCount s" and j: "j < entrypointCount s" and ij: "i < j"
      by simp_all
    have "i * STUB_ENTRY_SIZE < j * STUB_ENTRY_SIZE" using ij by (simp add: STUB_ENTRY_SIZE_def)
    then show ?thesis
      by (simp add: word_less_nat_alt stub_unat[OF n sl i] stub_unat[OF n sl j])
  qed
  have st: "preserved s s2"
    if "(\<forall>c\<in>set cs2. \<not> is_Free c) \<and> run b cs2 (s, w) = Inr (rs2, s2, w2)" for cs2 rs2 s2 w2
    using that by (auto intro: run_preserved)
  have "STUB_ENTRY_SIZE = 16" by (simp add: STUB_ENTRY_SIZE_def)
  with lay mono st show ?thesis by blast
qed

theorem slab_layout_monotonic_stable_witness:
  "list_all call_ok ex_gen2
   \<and> (\<exists>rs s w. run ex_build ex_gen2 (initial_state (\<lambda>a. 0), []) = Inr (rs, s, w)
         \<and> entrypointCount s = 2
         \<and> entrypointExec (entrypoints s 0) < entrypointExec (entrypoints s 1)
         \<and> entrypointExec (entrypoints s 1) = entrypointBufferExec s + 16
         \<and> (\<exists>rs2 s2 w2. run ex_build ex_more (s, w) = Inr (rs2, s2, w2) \<and> preserved s s2))"
proof -
  have h1: "\<forall>c\<in>set ex_gen2. call_ok c"
    by (simp add: ex_gen2_def region_ok_def STUB_ENTRY_SIZE_def GENERATED_ENTRYPOINT_MAX_def)
  have h2: "\<forall>c\<in>set ex_more. \<not> is_Free c"
    by (simp add: ex_more_def)
  have "\<exists>rs s w. run ex_build ex_gen2 (initial_state (\<lambda>a. 0), []) = Inr (rs, s, w)
         \<and> entrypointCount s = 2
         \<and> (\<exists>rs2 s2 w2. run ex_build ex_more (s, w) = Inr (rs2, s2, w2))"
    by (simp add: ex_gen2_def ex_more_def eval_simps)
  then obtain rs s w rs2 s2 w2 where
    r: "run ex_build ex_gen2 (initial_state (\<lambda>a. 0), []) = Inr (rs, s, w)"
    and c: "entrypointCount s = 2"
    and r2: "run ex_build ex_more (s, w) = Inr (rs2, s2, w2)"
    by blast
  note T = slab_layout_monotonic_stable [OF h1 r]
  from T[THEN conjunct2, THEN conjunct1, rule_format, of 1] c have e1: "entrypointExec (entrypoints s 1)
      = entrypointBufferExec s + of_nat (1 * STUB_ENTRY_SIZE) + thumb_bit ex_build"
    by simp
  then have e1': "entrypointExec (entrypoints s 1) = entrypointBufferExec s + 16"
    by (simp add: STUB_ENTRY_SIZE_def thumb_bit_def ex_build_def)
  from T[THEN conjunct2, THEN conjunct2, THEN conjunct1, rule_format, of 0 1] c have lt: "entrypointExec (entrypoints s 0) < entrypointExec (entrypoints s 1)"
    by simp
  from T[THEN conjunct2, THEN conjunct2, THEN conjunct2, rule_format, of ex_more rs2 s2 w2] h2 r2
  have p: "preserved s s2" by blast
  have h1': "list_all call_ok ex_gen2" using h1 by (simp add: list_all_iff)
  from h1' r c lt e1' r2 p show ?thesis by blast
qed

lemma store_bytes_nth:
  "length bs \<le> 2 ^ LENGTH('p) \<Longrightarrow> k < length bs \<Longrightarrow>
     store_bytes m (a::'p::len word) bs (a + of_nat k) = bs ! k"
proof (induction bs arbitrary: m a k)
  case Nil
  then show ?case by simp
next
  case (Cons b bs)
  show ?case
  proof (cases k)
    case 0
    have "\<forall>j<length bs. a \<noteq> (a + 1) + of_nat j"
    proof (intro allI impI)
      fix j assume j: "j < length bs"
      then have "Suc j < 2 ^ LENGTH('p)" using Cons.prems(1) by simp
      then have "(of_nat (Suc j) :: 'p word) \<noteq> 0" by (intro of_nat_neq_0) simp_all
      then show "a \<noteq> (a + 1) + of_nat j" by (simp add: add.assoc)
    qed
    from store_bytes_other[OF this] 0 show ?thesis by simp
  next
    case (Suc k')
    have "store_bytes (m(a := b)) (a + 1) bs ((a + 1) + of_nat k') = bs ! k'"
      using Cons.prems Suc by (intro Cons.IH) simp_all
    then show ?thesis using Suc by (simp add: add.assoc)
  qed
qed

lemma length_dispatch_bytes [simp]:
  "length (dispatch_bytes a e d) = dispatch_slot_size a"
  by (cases a) (simp_all add: dispatch_bytes_def le_bytes_def)

lemma region_ok_big:
  "region_ok (w::'p::len word) e \<Longrightarrow> (8::nat) \<le> 2 ^ LENGTH('p)"
  by (simp add: region_ok_def STUB_ENTRY_SIZE_def GENERATED_ENTRYPOINT_MAX_def)

lemma patch_reads_back:
  assumes big: "(8::nat) \<le> 2 ^ LENGTH('p)" and k: "k < dispatch_slot_size a"
  shows "patch a (code::'p::len word) exec d m (code + of_nat (DISPATCH_FUNC_OFFSET a) + of_nat k)
           = dispatch_bytes a exec d ! k"
proof -
  have "dispatch_slot_size a \<le> 8" by (cases a) simp_all
  with big have "length (dispatch_bytes a exec d) \<le> 2 ^ LENGTH('p)" by simp
  then show ?thesis
    unfolding patch_def using k by (intro store_bytes_nth) simp_all
qed

section \<open>Inserting a record\<close>

text \<open>
  Claim C7. Take a state reached from the initial one, a name that the scan does not find,
  room in the table, and a slab that is in place or can be allocated. If \<open>strdup\<close>
  fails, \<open>glvndGenerateEntrypoint\<close> returns null and leaves the counter, every record of
  the table and memory as they were (the null it stores into the name of the unused slot
  is what that slot held already). If \<open>strdup\<close> succeeds (and the allocator's answers
  were well-formed), the record of slot \<open>entrypointCount\<close> is first completed by
  \<open>GenerateEntrypointFunc\<close> while the counter still has its old value: it holds the
  copied name, the two slot addresses and \<open>assigned = 0\<close>, and the dispatch field of its
  stub holds the encoding of \<open>DefaultDispatchFunc\<close>; only then the counter is
  incremented, no other record changes, and the slot's executable pointer is returned.
\<close>

theorem name_copy_failure_atomic:
  fixes s :: "'p::len word state"
  assumes r: "run b cs (initial_state m, w0) = Inr (rs, s, w)"
    and init: "fst (InitEntrypoints os s) = 0"
    and fresh: "find_entrypoint pn 0 s = Inr None"
    and room: "entrypointCount s < GENERATED_ENTRYPOINT_MAX"
  defines "s0 \<equiv> snd (InitEntrypoints os s)"
    and "n \<equiv> entrypointCount s"
  shows
    "(\<exists>s'. glvndGenerateEntrypoint b os False pn s = Inr (0, s')
        \<and> entrypointCount s' = n \<and> entrypoints s' = entrypoints s \<and> mem s' = mem s
        \<and> entrypointBufferWrite s' = entrypointBufferWrite s0
        \<and> entrypointBufferExec s' = entrypointBufferExec s0)
     \<and> ((\<forall>c\<in>set cs. call_ok c) \<and> os_ok os \<longrightarrow>
          (\<exists>t s'. glvndGenerateEntrypoint b os True pn s = Inr (stub_exec b s0 n, s')
             \<and> GenerateEntrypointFunc b n n
                  (s0\<lparr>entrypoints := (entrypoints s0)
                         (n := (entrypoints s0 n)\<lparr>procName := Some (c_str pn), assigned := 0\<rparr>),
                       trace := trace s0 @ [Call_strdup pn]\<rparr>) = Inr t
             \<and> entrypointCount t = n
             \<and> entrypoints t n =
                  \<lparr>procName = Some (c_str pn), entrypointWrite = stub_write s0 n,
                   entrypointExec = stub_exec b s0 n, assigned = 0\<rparr>
             \<and> (\<forall>k<dispatch_slot_size (isa b).
                   mem t (stub_write s0 n + of_nat (DISPATCH_FUNC_OFFSET (isa b)) + of_nat k)
                     = dispatch_bytes (isa b) (stub_exec b s0 n) (DefaultDispatchFunc b) ! k)
             \<and> s' = t\<lparr>entrypointCount := n + 1\<rparr>
             \<and> (\<forall>i. i \<noteq> n \<longrightarrow> entrypoints s' i = entrypoints s i)))"
proof -
  have ninv: "names_inv s" using initial_names_inv r by (rule run_names_inv)
  have ninv0: "names_inv s0" using ninv by (simp add: names_inv_def s0_def)
  have fresh0: "find_entrypoint pn 0 s0 = Inr None"
    using fresh by (simp add: find_entrypoint_None_iff s0_def)
  have room0: "entrypointCount s0 < GENERATED_ENTRYPOINT_MAX" using room by (simp add: s0_def)
  have n0: "entrypointCount s0 = n" by (simp add: s0_def n_def)
  have fail: "glvndGenerateEntrypoint b os False pn s = Inr (0, strdup_failed pn s0)"
    using init fresh0 room0 by (simp add: generate_eq Let_def s0_def strdup_failed_def)
  have same: "entrypoints (strdup_failed pn s0) = entrypoints s"
    using names_inv_strdup_failed[OF ninv0] by (simp add: strdup_failed_def s0_def)
  have A: "\<exists>s'. glvndGenerateEntrypoint b os False pn s = Inr (0, s')
        \<and> entrypointCount s' = n \<and> entrypoints s' = entrypoints s \<and> mem s' = mem s
        \<and> entrypointBufferWrite s' = entrypointBufferWrite s0
        \<and> entrypointBufferExec s' = entrypointBufferExec s0"
    using fail same by (simp add: strdup_failed_def n0) (simp add: s0_def)
  have B: "\<exists>t s'. glvndGenerateEntrypoint b os True pn s = Inr (stub_exec b s0 n, s')
             \<and> GenerateEntrypointFunc b n n
                  (s0\<lparr>entrypoints := (entrypoints s0)
                         (n := (entrypoints s0 n)\<lparr>procName := Some (c_str pn), assigned := 0\<rparr>),
                       trace := trace s0 @ [Call_strdup pn]\<rparr>) = Inr t
             \<and> entrypointCount t = n
             \<and> entrypoints t n =
                  \<lparr>procName = Some (c_str pn), entrypointWrite = stub_write s0 n,
                   entrypointExec = stub_exec b s0 n, assigned = 0\<rparr>
             \<and> (\<forall>k<dispatch_slot_size (isa b).
                   mem t (stub_write s0 n + of_nat (DISPATCH_FUNC_OFFSET (isa b)) + of_nat k)
                     = dispatch_bytes (isa b) (stub_exec b s0 n) (DefaultDispatchFunc b) ! k)
             \<and> s' = t\<lparr>entrypointCount := n + 1\<rparr>
             \<and> (\<forall>i. i \<noteq> n \<longrightarrow> entrypoints s' i = entrypoints s i)"
    if h: "(\<forall>c\<in>set cs. call_ok c) \<and> os_ok os"
  proof -
    have sl: "slab_inv b s" using initial_slab_inv h r by (auto intro: run_slab_inv)
    have sl0: "slab_inv b s0" unfolding s0_def using sl h by (auto intro: slab_inv_init)
    have ex0: "entrypointBufferExec s0 \<noteq> 0"
      unfolding s0_def using h init init_ok_exec[of os s] by blast
    with sl0 have reg: "region_ok (entrypointBufferWrite s0) (entrypointBufferExec s0)"
      by (simp add: slab_inv_def)
    then have ev: "entrypointBufferExec s0 AND 1 = 0" by (simp add: region_ok_def)
    have na: "\<not> (isa b = USE_ARMV7_ASM \<and> stub_exec b s0 n AND 1 = 0)"
      using stub_exec_thumb[OF _ ev, of b n] by blast
    let ?pre = "s0\<lparr>entrypoints := (entrypoints s0)
                         (n := (entrypoints s0 n)\<lparr>procName := Some (c_str pn), assigned := 0\<rparr>),
                       trace := trace s0 @ [Call_strdup pn]\<rparr>"
    let ?t = "(inserted b pn s0)\<lparr>entrypointCount := n\<rparr>"
    have g: "glvndGenerateEntrypoint b os True pn s = Inr (stub_exec b s0 n, inserted b pn s0)"
      using init fresh0 room0 na by (simp add: generate_eq Let_def s0_def[symmetric] n0)
    have gef: "GenerateEntrypointFunc b n n ?pre = Inr ?t"
      using na
      by (auto simp: GenerateEntrypointFunc_eq Let_def stub_exec_def stub_write_def inserted_def n0
          intro!: state.equality)
    have rec: "entrypoints ?t n =
                  \<lparr>procName = Some (c_str pn), entrypointWrite = stub_write s0 n,
                   entrypointExec = stub_exec b s0 n, assigned = 0\<rparr>"
      by (simp add: inserted_def n0)
    have bytes: "\<forall>k<dispatch_slot_size (isa b).
                   mem ?t (stub_write s0 n + of_nat (DISPATCH_FUNC_OFFSET (isa b)) + of_nat k)
                     = dispatch_bytes (isa b) (stub_exec b s0 n) (DefaultDispatchFunc b) ! k"
      using patch_reads_back[OF region_ok_big[OF reg]] by (simp add: inserted_def n0)
    have fin: "inserted b pn s0 = ?t\<lparr>entrypointCount := n + 1\<rparr>"
      by (simp add: inserted_def n0)
    have oth: "\<forall>i. i \<noteq> n \<longrightarrow> entrypoints (inserted b pn s0) i = entrypoints s i"
      by (simp add: inserted_def n0) (simp add: s0_def)
    have cnt: "entrypointCount ?t = n" by simp
    from g gef cnt rec bytes fin oth show ?thesis by blast
  qed
  from A B show ?thesis by blast
qed

theorem name_copy_failure_atomic_witness:
  "list_all call_ok ex_gen2 \<and> os_ok (AllocFailed :: 32 word alloc_result)
   \<and> (\<exists>rs s w. run ex_build ex_gen2 (initial_state (\<lambda>a. 0), []) = Inr (rs, s, w)
         \<and> fst (InitEntrypoints AllocFailed s) = 0
         \<and> find_entrypoint ''glNew'' 0 s = Inr None
         \<and> entrypointCount s < GENERATED_ENTRYPOINT_MAX
         \<and> (\<exists>s'. glvndGenerateEntrypoint ex_build AllocFailed False ''glNew'' s = Inr (0, s')
               \<and> entrypointCount s' = entrypointCount s \<and> entrypoints s' = entrypoints s)
         \<and> (\<exists>s'. glvndGenerateEntrypoint ex_build AllocFailed True ''glNew'' s = Inr (0x2020, s')
               \<and> entrypointCount s' = 3
               \<and> entrypoints s' 2 = \<lparr>procName = Some ''glNew'', entrypointWrite = 0x1020,
                                       entrypointExec = 0x2020, assigned = 0\<rparr>))"
proof -
  have h1: "\<forall>c\<in>set ex_gen2. call_ok c"
    by (simp add: ex_gen2_def region_ok_def STUB_ENTRY_SIZE_def GENERATED_ENTRYPOINT_MAX_def)
  have h2: "os_ok (AllocFailed :: 32 word alloc_result)" by simp
  have "\<exists>rs s w. run ex_build ex_gen2 (initial_state (\<lambda>a. 0), []) = Inr (rs, s, w)
         \<and> fst (InitEntrypoints AllocFailed s) = 0
         \<and> find_entrypoint ''glNew'' 0 s = Inr None
         \<and> entrypointCount s = 2
         \<and> entrypointBufferWrite s = 0x1000 \<and> entrypointBufferExec s = 0x2000"
    by (simp add: ex_gen2_def eval_simps)
  then obtain rs s w where
    r: "run ex_build ex_gen2 (initial_state (\<lambda>a. 0), []) = Inr (rs, s, w)"
    and i: "fst (InitEntrypoints AllocFailed s) = 0"
    and f: "find_entrypoint ''glNew'' 0 s = Inr None"
    and c: "entrypointCount s = 2"
    and bw: "entrypointBufferWrite s = 0x1000" and be: "entrypointBufferExec s = 0x2000"
    by blast
  have room: "entrypointCount s < GENERATED_ENTRYPOINT_MAX"
    using c by (simp add: GENERATED_ENTRYPOINT_MAX_def)
  have s0: "snd (InitEntrypoints AllocFailed s) = s"
    using be by (simp add: InitEntrypoints_def)
  note T = name_copy_failure_atomic [OF r i f room]
  from T[THEN conjunct1] have A:
    "\<exists>s'. glvndGenerateEntrypoint ex_build AllocFailed False ''glNew'' s = Inr (0, s')
               \<and> entrypointCount s' = entrypointCount s \<and> entrypoints s' = entrypoints s"
    by blast
  from T[THEN conjunct2] h1 h2 obtain t s' where
    g: "glvndGenerateEntrypoint ex_build AllocFailed True ''glNew'' s
          = Inr (stub_exec ex_build (snd (InitEntrypoints AllocFailed s)) (entrypointCount s), s')"
    and tn: "entrypoints t (entrypointCount s) =
                  \<lparr>procName = Some (c_str ''glNew''),
                   entrypointWrite = stub_write (snd (InitEntrypoints AllocFailed s)) (entrypointCount s),
                   entrypointExec = stub_exec ex_build (snd (InitEntrypoints AllocFailed s)) (entrypointCount s),
                   assigned = 0\<rparr>"
    and s': "s' = t\<lparr>entrypointCount := entrypointCount s + 1\<rparr>"
    by blast
  have B: "\<exists>s'. glvndGenerateEntrypoint ex_build AllocFailed True ''glNew'' s = Inr (0x2020, s')
               \<and> entrypointCount s' = 3
               \<and> entrypoints s' 2 = \<lparr>procName = Some ''glNew'', entrypointWrite = 0x1020,
                                       entrypointExec = 0x2020, assigned = 0\<rparr>"
    using g tn s'
    by (simp add: s0 c bw be stub_exec_def stub_write_def thumb_bit_def ex_build_def
        STUB_ENTRY_SIZE_def c_str_def)
  have h1': "list_all call_ok ex_gen2" using h1 by (simp add: list_all_iff)
  from h1' h2 r i f room A B show ?thesis by blast
qed

lemma names_inv_name:
  assumes inv: "names_inv s" and j: "j < entrypointCount s"
  obtains nm where "procName (entrypoints s j) = Some nm" "c_str nm = nm"
  using inv j unfolding names_inv_def by blast

lemma dedup_lookup:
  assumes inv: "names_inv s" and k: "k < entrypointCount s"
    and nm: "procName (entrypoints s k) = Some (c_str pn)"
  shows "find_entrypoint pn 0 s = Inr (Some (entrypointExec (entrypoints s k)))"
proof (rule find_entrypoint_first[OF _ k nm])
  show "0 \<le> k" by simp
  show "c_str (c_str pn) = c_str pn" by simp
  show "\<forall>j. 0 \<le> j \<and> j < k \<longrightarrow>
          (\<exists>nm'. procName (entrypoints s j) = Some nm' \<and> c_str nm' \<noteq> c_str pn)"
  proof (intro allI impI)
    fix j assume "0 \<le> j \<and> j < k"
    then have jk: "j < k" by simp
    with k have j: "j < entrypointCount s" by simp
    from names_inv_name[OF inv j] obtain nm' where
      nm': "procName (entrypoints s j) = Some nm'" "c_str nm' = nm'" by blast
    have "nm' \<noteq> c_str pn"
    proof
      assume "nm' = c_str pn"
      with nm nm' have "procName (entrypoints s j) = procName (entrypoints s k)" by simp
      with inv j k have "j = k" unfolding names_inv_def by blast
      with jk show False by simp
    qed
    with nm' show "\<exists>nm'. procName (entrypoints s j) = Some nm' \<and> c_str nm' \<noteq> c_str pn"
      by simp
  qed
qed

lemma generate_hit:
  assumes inv: "names_inv s" and ex: "entrypointBufferExec s \<noteq> 0"
    and k: "k < entrypointCount s" and nm: "procName (entrypoints s k) = Some (c_str pn)"
  shows "glvndGenerateEntrypoint b os dup_ok pn s = Inr (entrypointExec (entrypoints s k), s)"
  using ex dedup_lookup[OF inv k nm]
  by (simp add: generate_eq InitEntrypoints_def)

lemma generate_nonnull_record:
  assumes inv: "names_inv s" and g: "glvndGenerateEntrypoint b os dup_ok pn s = Inr (p, s')"
    and p: "p \<noteq> 0"
  shows "\<exists>k<entrypointCount s'. procName (entrypoints s' k) = Some (c_str pn)
            \<and> entrypointExec (entrypoints s' k) = p"
  using g
proof (cases rule: generate_Inr_cases)
  case init_failed
  with p show ?thesis by simp
next
  case found
  let ?s0 = "snd (InitEntrypoints os s)"
  from find_entrypoint_Some[OF found(2)] obtain k nm where
    k: "k < entrypointCount ?s0" "procName (entrypoints ?s0 k) = Some nm"
      "c_str nm = c_str pn" "p = entrypointExec (entrypoints ?s0 k)" by blast
  from k(1) have "k < entrypointCount s" by simp
  from names_inv_name[OF inv this] k(2) have "c_str nm = nm" by simp
  with k found(3) show ?thesis by auto
next
  case full
  with p show ?thesis by simp
next
  case dup_failed
  with p show ?thesis by simp
next
  case inserted
  then show ?thesis by (auto simp: inserted_def)
qed

section \<open>Deduplication\<close>

text \<open>
  Claim C1. Let \<open>glvndGenerateEntrypoint\<close> return a non-null pointer \<open>p\<close> for a name in
  a state reached from the initial one (allocator answers well-formed). Then after any
  further calls that contain no \<open>glvndFreeEntrypoints\<close>, none of which faults, a call
  for the same name returns \<open>p\<close> again, whatever the allocator and \<open>strdup\<close> would
  answer, and leaves the state exactly as it was. The pointer is the one the scan of the
  live records finds: \<open>strcmp\<close> is zero exactly for equal strings, and one live
  record, and no other, carries the name.
\<close>

theorem generate_dedup:
  assumes ok1: "\<forall>c\<in>set cs. call_ok c"
    and r: "run b cs (initial_state m, w0) = Inr (rs, s, w)"
    and os: "os_ok os"
    and g: "glvndGenerateEntrypoint b os dup_ok pn s = Inr (p, s1)"
    and p: "p \<noteq> 0"
    and ok2: "\<forall>c\<in>set cs2. call_ok c \<and> \<not> is_Free c"
  shows "\<exists>rs2 s2 w2. run b cs2 (s1, w) = Inr (rs2, s2, w2)
     \<and> (\<forall>os' dup_ok'. glvndGenerateEntrypoint b os' dup_ok' pn s2 = Inr (p, s2))
     \<and> find_entrypoint pn 0 s2 = Inr (Some p)
     \<and> (\<forall>nm. strcmp pn nm = 0 \<longleftrightarrow> c_str pn = c_str nm)
     \<and> (\<exists>k<entrypointCount s2.
           procName (entrypoints s2 k) = Some (c_str pn) \<and> entrypointExec (entrypoints s2 k) = p
           \<and> (\<forall>j<entrypointCount s2. j \<noteq> k \<longrightarrow>
                 procName (entrypoints s2 j) \<noteq> Some (c_str pn)))"
proof -
  have n: "names_inv s" using initial_names_inv r by (rule run_names_inv)
  have sl: "slab_inv b s" using initial_slab_inv ok1 r by (rule run_slab_inv)
  have n1: "names_inv s1" using n g by (rule generate_names_inv)
  have sl1: "slab_inv b s1" using sl os g by (rule generate_slab_inv)
  from generate_nonnull_record[OF n g p] obtain k where
    k: "k < entrypointCount s1" "procName (entrypoints s1 k) = Some (c_str pn)"
      "entrypointExec (entrypoints s1 k) = p" by blast
  from run_total[OF n1 sl1, of cs2 w] ok2 obtain rs2 s2 w2 where
    r2: "run b cs2 (s1, w) = Inr (rs2, s2, w2)" by auto
  have n2: "names_inv s2" using n1 r2 by (rule run_names_inv)
  have sl2: "slab_inv b s2" using sl1 _ r2 by (rule run_slab_inv) (use ok2 in simp)
  have pr: "preserved s1 s2" using _ r2 by (rule run_preserved) (use ok2 in simp)
  from pr k have k2: "k < entrypointCount s2" "procName (entrypoints s2 k) = Some (c_str pn)"
      "entrypointExec (entrypoints s2 k) = p"
    by (auto simp: preserved_def)
  from sl2 k2(1) have ex: "entrypointBufferExec s2 \<noteq> 0" by (auto simp: slab_inv_def)
  have hit: "\<forall>os' dup_ok'. glvndGenerateEntrypoint b os' dup_ok' pn s2 = Inr (p, s2)"
    using generate_hit[OF n2 ex k2(1,2)] k2(3) by simp
  have fnd: "find_entrypoint pn 0 s2 = Inr (Some p)"
    using dedup_lookup[OF n2 k2(1,2)] k2(3) by simp
  have uniq: "\<forall>j<entrypointCount s2. j \<noteq> k \<longrightarrow> procName (entrypoints s2 j) \<noteq> Some (c_str pn)"
    using n2 k2(1,2) unfolding names_inv_def by metis
  have cmp: "\<forall>nm. strcmp pn nm = 0 \<longleftrightarrow> c_str pn = c_str nm"
    by (simp add: strcmp_eq_0_iff)
  from r2 hit fnd cmp k2 uniq show ?thesis by blast
qed

theorem generate_dedup_witness:
  "list_all call_ok ex_gen2 \<and> os_ok (AllocFailed :: 32 word alloc_result)
   \<and> list_all (\<lambda>c. call_ok c \<and> \<not> is_Free c) ex_more
   \<and> (\<exists>rs s w s1. run ex_build ex_gen2 (initial_state (\<lambda>a. 0), []) = Inr (rs, s, w)
         \<and> glvndGenerateEntrypoint ex_build AllocFailed True ''glFoo'' s = Inr (0x2000, s1)
         \<and> (\<exists>rs2 s2 w2. run ex_build ex_more (s1, w) = Inr (rs2, s2, w2)
               \<and> glvndGenerateEntrypoint ex_build AllocFailed False ''glFoo'' s2 = Inr (0x2000, s2)
               \<and> find_entrypoint ''glFoo'' 0 s2 = Inr (Some 0x2000)))"
proof -
  have h1: "\<forall>c\<in>set ex_gen2. call_ok c"
    by (simp add: ex_gen2_def region_ok_def STUB_ENTRY_SIZE_def GENERATED_ENTRYPOINT_MAX_def)
  have h2: "os_ok (AllocFailed :: 32 word alloc_result)" by simp
  have h3: "\<forall>c\<in>set ex_more. call_ok c \<and> \<not> is_Free c"
    by (simp add: ex_more_def)
  have h4: "(0x2000 :: 32 word) \<noteq> 0" by simp
  have "\<exists>rs s w s1. run ex_build ex_gen2 (initial_state (\<lambda>a. 0), []) = Inr (rs, s, w)
         \<and> glvndGenerateEntrypoint ex_build AllocFailed True ''glFoo'' s = Inr (0x2000, s1)"
    by (simp add: ex_gen2_def eval_simps)
  then obtain rs s w s1 where
    r: "run ex_build ex_gen2 (initial_state (\<lambda>a. 0), []) = Inr (rs, s, w)"
    and g: "glvndGenerateEntrypoint ex_build AllocFailed True ''glFoo'' s = Inr (0x2000, s1)"
    by blast
  from generate_dedup [OF h1 r h2 g h4 h3] obtain rs2 s2 w2 where
    "run ex_build ex_more (s1, w) = Inr (rs2, s2, w2)"
    "glvndGenerateEntrypoint ex_build AllocFailed False ''glFoo'' s2 = Inr (0x2000, s2)"
    "find_entrypoint ''glFoo'' 0 s2 = Inr (Some 0x2000)"
    by blast
  moreover have "list_all call_ok ex_gen2" using h1 by (simp add: list_all_iff)
  moreover have "list_all (\<lambda>c. call_ok c \<and> \<not> is_Free c) ex_more"
    using h3 by (simp add: list_all_iff)
  ultimately show ?thesis using h2 r g by blast
qed

lemma find_None_inserted:
  assumes f: "find_entrypoint q 0 s = Inr None" and ne: "c_str q \<noteq> c_str nm"
  shows "find_entrypoint q 0 (inserted b nm s) = Inr None"
  using f ne
  by (auto simp: find_entrypoint_None_iff inserted_def less_Suc_eq)

lemma stub_exec_inserted [simp]: "stub_exec b (inserted b' nm s) i = stub_exec b s i"
  by (simp add: stub_exec_def inserted_def)

lemma generate_inserts:
  assumes sl: "slab_inv b s" and ex: "entrypointBufferExec s \<noteq> 0"
    and f: "find_entrypoint q 0 s = Inr None"
    and room: "entrypointCount s < GENERATED_ENTRYPOINT_MAX"
  shows "glvndGenerateEntrypoint b os True q s
           = Inr (stub_exec b s (entrypointCount s), inserted b q s)"
proof -
  from sl ex have "entrypointBufferExec s AND 1 = 0" by (simp add: slab_inv_def region_ok_def)
  then have "\<not> (isa b = USE_ARMV7_ASM \<and> stub_exec b s (entrypointCount s) AND 1 = 0)"
    using stub_exec_thumb[of b s "entrypointCount s"] by blast
  then show ?thesis
    using ex f room by (simp add: generate_eq InitEntrypoints_def)
qed

lemma generate_run:
  fixes s :: "'p::len word state" and w :: 'w
  assumes "names_inv s" and "slab_inv b s" and "entrypointBufferExec s \<noteq> 0"
    and "distinct (map c_str ns)" and "\<forall>q\<in>set ns. find_entrypoint q 0 s = Inr None"
    and "entrypointCount s + length ns \<le> GENERATED_ENTRYPOINT_MAX"
  shows "\<exists>s'. run b (map (\<lambda>q. Generate q os True) ns :: ('p word, unit, 'w) call list) (s, w)
                = Inr (map (\<lambda>k. Some (stub_exec b s (entrypointCount s + k))) [0..<length ns], s', w)
           \<and> entrypointCount s' = entrypointCount s + length ns
           \<and> names_inv s' \<and> slab_inv b s'
           \<and> entrypointBufferExec s' = entrypointBufferExec s
           \<and> entrypointBufferWrite s' = entrypointBufferWrite s
           \<and> preserved s s'
           \<and> (\<forall>k<length ns.
                 procName (entrypoints s' (entrypointCount s + k)) = Some (c_str (ns ! k))
                 \<and> entrypointExec (entrypoints s' (entrypointCount s + k))
                     = stub_exec b s (entrypointCount s + k))"
  using assms
proof (induction ns arbitrary: s)
  case Nil
  then show ?case by (simp add: preserved_refl)
next
  case (Cons q qs)
  let ?n = "entrypointCount s"
  let ?s1 = "inserted b q s"
  have room: "?n < GENERATED_ENTRYPOINT_MAX" using Cons.prems(6) by simp
  have fq: "find_entrypoint q 0 s = Inr None" using Cons.prems(5) by simp
  have g: "glvndGenerateEntrypoint b os True q s = Inr (stub_exec b s ?n, ?s1)"
    using Cons.prems(2,3) fq room by (rule generate_inserts)
  have n1: "names_inv ?s1" using Cons.prems(1) fq room by (rule names_inv_inserted)
  have sl1: "slab_inv b ?s1" using Cons.prems(2,3) by (rule slab_inv_inserted)
  have ex1: "entrypointBufferExec ?s1 \<noteq> 0" using Cons.prems(3) by (simp add: inserted_def)
  have d1: "distinct (map c_str qs)" using Cons.prems(4) by simp
  have f1: "\<forall>x\<in>set qs. find_entrypoint x 0 ?s1 = Inr None"
  proof
    fix x assume x: "x \<in> set qs"
    then have "c_str x \<noteq> c_str q" using Cons.prems(4) by (auto simp: image_iff)
    moreover have "find_entrypoint x 0 s = Inr None" using Cons.prems(5) x by simp
    ultimately show "find_entrypoint x 0 ?s1 = Inr None" by (intro find_None_inserted)
  qed
  have c1: "entrypointCount ?s1 = Suc ?n" by (simp add: inserted_def)
  have l1: "entrypointCount ?s1 + length qs \<le> GENERATED_ENTRYPOINT_MAX"
    using Cons.prems(6) c1 by simp
  from Cons.IH[OF n1 sl1 ex1 d1 f1 l1] obtain s' where
    all: "run b (map (\<lambda>q. Generate q os True) qs :: ('p word, unit, 'w) call list) (?s1, w)
          = Inr (map (\<lambda>k. Some (stub_exec b ?s1 (entrypointCount ?s1 + k))) [0..<length qs], s', w)
      \<and> entrypointCount s' = entrypointCount ?s1 + length qs
      \<and> names_inv s' \<and> slab_inv b s'
      \<and> entrypointBufferExec s' = entrypointBufferExec ?s1
      \<and> entrypointBufferWrite s' = entrypointBufferWrite ?s1
      \<and> preserved ?s1 s'
      \<and> (\<forall>k<length qs.
                 procName (entrypoints s' (entrypointCount ?s1 + k)) = Some (c_str (qs ! k))
                 \<and> entrypointExec (entrypoints s' (entrypointCount ?s1 + k))
                     = stub_exec b ?s1 (entrypointCount ?s1 + k))"
    by blast
  note r = all[THEN conjunct1]
  note c = all[THEN conjunct2, THEN conjunct1]
  note inv = all[THEN conjunct2, THEN conjunct2, THEN conjunct1]
    all[THEN conjunct2, THEN conjunct2, THEN conjunct2, THEN conjunct1]
  note bufs = all[THEN conjunct2, THEN conjunct2, THEN conjunct2, THEN conjunct2, THEN conjunct1]
    all[THEN conjunct2, THEN conjunct2, THEN conjunct2, THEN conjunct2, THEN conjunct2, THEN conjunct1]
  note pr = all[THEN conjunct2, THEN conjunct2, THEN conjunct2, THEN conjunct2, THEN conjunct2,
      THEN conjunct2, THEN conjunct1]
  note recs = all[THEN conjunct2, THEN conjunct2, THEN conjunct2, THEN conjunct2, THEN conjunct2,
      THEN conjunct2, THEN conjunct2]
  have run: "run b (map (\<lambda>q. Generate q os True) (q # qs) :: ('p word, unit, 'w) call list) (s, w)
      = Inr (map (\<lambda>k. Some (stub_exec b s (?n + k))) [0..<length (q # qs)], s', w)"
    using g r by (simp add: c1 map_upt_Suc del: upt_Suc)
  have pr0: "preserved s ?s1" by (simp add: preserved_def inserted_def)
  have pr': "preserved s s'" using pr0 pr by (rule preserved_trans)
  have rec0: "procName (entrypoints s' ?n) = Some (c_str q)
      \<and> entrypointExec (entrypoints s' ?n) = stub_exec b s ?n"
    using pr c1 by (simp add: preserved_def inserted_def)
  have recs': "\<forall>k<length (q # qs).
                 procName (entrypoints s' (?n + k)) = Some (c_str ((q # qs) ! k))
                 \<and> entrypointExec (entrypoints s' (?n + k)) = stub_exec b s (?n + k)"
  proof (intro allI impI)
    fix k assume k: "k < length (q # qs)"
    show "procName (entrypoints s' (?n + k)) = Some (c_str ((q # qs) ! k))
                 \<and> entrypointExec (entrypoints s' (?n + k)) = stub_exec b s (?n + k)"
    proof (cases k)
      case 0
      with rec0 show ?thesis by simp
    next
      case (Suc k')
      with k have "k' < length qs" by simp
      with recs have "procName (entrypoints s' (entrypointCount ?s1 + k')) = Some (c_str (qs ! k'))
                 \<and> entrypointExec (entrypoints s' (entrypointCount ?s1 + k'))
                     = stub_exec b ?s1 (entrypointCount ?s1 + k')" by blast
      then show ?thesis using Suc by (simp add: c1)
    qed
  qed
  have "entrypointCount s' = ?n + length (q # qs)" using c c1 by simp
  moreover have "entrypointBufferExec s' = entrypointBufferExec s"
    "entrypointBufferWrite s' = entrypointBufferWrite s"
    using bufs by (simp_all add: inserted_def)
  ultimately show ?case using run inv pr' recs'
    by (intro exI[of _ s'] conjI)
qed

lemma run_append:
  "run b (cs @ ds) sw =
     (case run b cs sw of
        Inl f \<Rightarrow> Inl f
      | Inr (rs, sw1) \<Rightarrow>
          (case run b ds sw1 of Inl f \<Rightarrow> Inl f | Inr (rs2, sw2) \<Rightarrow> Inr (rs @ rs2, sw2)))"
  by (induction cs arbitrary: sw) (auto split: sum.splits)

lemma generate_after_init:
  assumes "fst (InitEntrypoints os s) = 0" and "entrypointBufferExec (snd (InitEntrypoints os s)) \<noteq> 0"
  shows "glvndGenerateEntrypoint b os d q s
           = glvndGenerateEntrypoint b os d q (snd (InitEntrypoints os s))"
  using assms by (simp add: generate_eq Let_def InitEntrypoints_initialised)

lemma generate_full:
  assumes c: "entrypointCount s = GENERATED_ENTRYPOINT_MAX"
    and f: "find_entrypoint q 0 s = Inr None"
  shows "glvndGenerateEntrypoint b os d q s = Inr (0, snd (InitEntrypoints os s))"
proof -
  have "find_entrypoint q 0 (snd (InitEntrypoints os s)) = Inr None"
    using f by (simp add: find_entrypoint_None_iff)
  then show ?thesis using c by (simp add: generate_eq Let_def)
qed

lemma c_str_replicate_a: "c_str (replicate n (CHR ''a'')) = replicate n (CHR ''a'')"
  by (simp add: c_str_def takeWhile_replicate)

lemma ex_names_distinct: "distinct (map c_str (ex_names @ [''b'']))"
proof -
  have m: "map c_str ex_names = ex_names"
    by (simp add: ex_names_def c_str_replicate_a del: replicate_Suc)
  have inj: "inj_on (\<lambda>k. replicate (Suc k) (CHR ''a'')) (set [0..<GENERATED_ENTRYPOINT_MAX])"
  proof (rule inj_onI)
    fix x y assume "replicate (Suc x) (CHR ''a'') = replicate (Suc y) (CHR ''a'')"
    then have "length (replicate (Suc x) (CHR ''a'')) = length (replicate (Suc y) (CHR ''a''))"
      by (rule arg_cong)
    then show "x = y" by simp
  qed
  have d: "distinct ex_names"
    unfolding ex_names_def using inj by (simp add: distinct_map del: replicate_Suc)
  have nb: "''b'' \<notin> set ex_names"
    by (auto simp: ex_names_def)
  have cb: "c_str ''b'' = ''b''" by (simp add: c_str_def)
  show ?thesis using d nb by (simp add: m cb)
qed

section \<open>Capacity\<close>

text \<open>
  Claim C3. The table holds \<open>GENERATED_ENTRYPOINT_MAX = 4096\<close> records. In a state whose
  counter has that value, \<open>glvndGenerateEntrypoint\<close> on a name that the scan does not
  find returns null and leaves the counter, the records and memory as they were. From the
  initial state, with an allocator that hands out a well-formed region and a \<open>strdup\<close>
  that succeeds, generating 4096 names with distinct strings and then one more returns
  for the \<open>k\<close>-th name the non-null pointer \<open>exec_base + k * 16\<close> (plus one on Thumb)
  and for the last one null; afterwards the counter is 4096, each of the 4096 names is
  still answered with its pointer, and the extra name is still answered with null.
\<close>

theorem capacity_bound:
  fixes s :: "'p::len word state" and w :: 'w and wb eb :: "'p word"
  assumes reg: "region_ok wb eb"
    and len: "length ns = GENERATED_ENTRYPOINT_MAX"
    and dist: "distinct (map c_str (ns @ [q]))"
  shows "GENERATED_ENTRYPOINT_MAX = 4096
    \<and> (entrypointCount s = GENERATED_ENTRYPOINT_MAX \<and> find_entrypoint q' 0 s = Inr None \<longrightarrow>
         (\<exists>s'. glvndGenerateEntrypoint b os d q' s = Inr (0, s')
            \<and> entrypointCount s' = GENERATED_ENTRYPOINT_MAX
            \<and> entrypoints s' = entrypoints s \<and> mem s' = mem s))
    \<and> (\<exists>sN. run b (map (\<lambda>x. Generate x (Allocated wb eb) True) (ns @ [q])
                      :: ('p word, unit, 'w) call list) (initial_state m, w)
               = Inr (map (\<lambda>k. Some (eb + of_nat (k * STUB_ENTRY_SIZE) + thumb_bit b))
                        [0..<GENERATED_ENTRYPOINT_MAX] @ [Some 0], sN, w)
          \<and> entrypointCount sN = GENERATED_ENTRYPOINT_MAX
          \<and> (\<forall>k<GENERATED_ENTRYPOINT_MAX.
                eb + of_nat (k * STUB_ENTRY_SIZE) + thumb_bit b \<noteq> 0
                \<and> procName (entrypoints sN k) = Some (c_str (ns ! k))
                \<and> entrypointExec (entrypoints sN k) = eb + of_nat (k * STUB_ENTRY_SIZE) + thumb_bit b
                \<and> (\<forall>os' d'. glvndGenerateEntrypoint b os' d' (ns ! k) sN
                       = Inr (eb + of_nat (k * STUB_ENTRY_SIZE) + thumb_bit b, sN)))
          \<and> (\<forall>os' d'. glvndGenerateEntrypoint b os' d' q sN = Inr (0, sN)))"
proof -
  let ?N = "GENERATED_ENTRYPOINT_MAX"
  let ?os = "Allocated wb eb :: 'p word alloc_result"
  let ?i = "initial_state m :: 'p word state"
  let ?s0 = "snd (InitEntrypoints ?os ?i)"
  let ?p = "\<lambda>k. eb + of_nat (k * STUB_ENTRY_SIZE) + thumb_bit b"
  have N: "?N = 4096" by (simp add: GENERATED_ENTRYPOINT_MAX_def)
  have A: "\<exists>s'. glvndGenerateEntrypoint b os d q' s = Inr (0, s')
            \<and> entrypointCount s' = ?N \<and> entrypoints s' = entrypoints s \<and> mem s' = mem s"
    if "entrypointCount s = ?N \<and> find_entrypoint q' 0 s = Inr None"
    using that generate_full[of s q' b os d] by simp
  \<comment> \<open>the state after the slab has been allocated\<close>
  have e0: "entrypointBufferExec ?s0 = eb" "entrypointBufferWrite ?s0 = wb"
    "entrypointCount ?s0 = 0" "fst (InitEntrypoints ?os ?i) = 0"
    by (simp_all add: InitEntrypoints_def initial_state_def Let_def)
  have ci: "entrypointCount ?i = 0" by (simp add: initial_state_def)
  have ebn: "eb \<noteq> 0" using reg by (simp add: region_ok_def)
  have n0: "names_inv ?s0" using initial_names_inv[of m] by (simp add: names_inv_def)
  have sl0: "slab_inv b ?s0" using initial_slab_inv reg by (intro slab_inv_init) simp_all
  have ex0: "entrypointBufferExec ?s0 \<noteq> 0" using e0 ebn by simp
  have d: "distinct (map c_str ns)" using dist by simp
  have f0: "\<forall>x\<in>set ns. find_entrypoint x 0 ?s0 = Inr None"
    using e0(3) by (simp add: find_entrypoint_empty)
  have l0: "entrypointCount ?s0 + length ns \<le> ?N" using len e0(3) by simp
  from generate_run[OF n0 sl0 ex0 d f0 l0, of ?os w] obtain sN where
    all: "run b (map (\<lambda>q. Generate q ?os True) ns :: ('p word, unit, 'w) call list) (?s0, w)
                = Inr (map (\<lambda>k. Some (stub_exec b ?s0 (entrypointCount ?s0 + k))) [0..<length ns], sN, w)
           \<and> entrypointCount sN = entrypointCount ?s0 + length ns
           \<and> names_inv sN \<and> slab_inv b sN
           \<and> entrypointBufferExec sN = entrypointBufferExec ?s0
           \<and> entrypointBufferWrite sN = entrypointBufferWrite ?s0
           \<and> preserved ?s0 sN
           \<and> (\<forall>k<length ns.
                 procName (entrypoints sN (entrypointCount ?s0 + k)) = Some (c_str (ns ! k))
                 \<and> entrypointExec (entrypoints sN (entrypointCount ?s0 + k))
                     = stub_exec b ?s0 (entrypointCount ?s0 + k))"
    by blast
  have se: "\<And>k. stub_exec b ?s0 k = ?p k" by (simp add: stub_exec_def e0)
  have r0: "run b (map (\<lambda>q. Generate q ?os True) ns :: ('p word, unit, 'w) call list) (?s0, w)
        = Inr (map (\<lambda>k. Some (?p k)) [0..<?N], sN, w)"
    using all[THEN conjunct1] by (simp add: e0 ci se len)
  have cN: "entrypointCount sN = ?N" using all len ci by simp
  have nN: "names_inv sN" and slN: "slab_inv b sN" using all by blast+
  have exN: "entrypointBufferExec sN \<noteq> 0" using all ex0 by simp
  have recs: "\<And>k. k < ?N \<Longrightarrow> procName (entrypoints sN k) = Some (c_str (ns ! k))
                 \<and> entrypointExec (entrypoints sN k) = ?p k"
    using all len by (simp add: e0 ci se)
  \<comment> \<open>the run from the initial state is the run from there\<close>
  have Npos: "ns \<noteq> []" using len N by auto
  then obtain n0 ns' where ns: "ns = n0 # ns'" by (cases ns) auto
  have g0: "glvndGenerateEntrypoint b ?os True n0 ?i = glvndGenerateEntrypoint b ?os True n0 ?s0"
    using e0(4) ex0 by (rule generate_after_init)
  have r: "run b (map (\<lambda>q. Generate q ?os True) ns :: ('p word, unit, 'w) call list) (?i, w)
        = Inr (map (\<lambda>k. Some (?p k)) [0..<?N], sN, w)"
    using r0 unfolding ns by (simp add: g0)
  \<comment> \<open>one more name\<close>
  have fq: "find_entrypoint q 0 sN = Inr None"
    unfolding find_entrypoint_None_iff
  proof (intro allI impI)
    fix j assume "0 \<le> j \<and> j < entrypointCount sN"
    then have j: "j < ?N" using cN by simp
    then have jl: "j < length ns" using len by simp
    have "ns ! j \<in> set ns" using jl by (rule nth_mem)
    moreover have "\<forall>x\<in>set ns. c_str q \<noteq> c_str x" using dist by (auto simp: image_iff)
    ultimately have "c_str (ns ! j) \<noteq> c_str q" by metis
    with recs[OF j] show "\<exists>nm. procName (entrypoints sN j) = Some nm \<and> c_str nm \<noteq> c_str q"
      by simp
  qed
  have last: "\<forall>os' d'. glvndGenerateEntrypoint b os' d' q sN = Inr (0, sN)"
    using generate_full[OF cN fq] exN by (simp add: InitEntrypoints_initialised)
  have full: "run b (map (\<lambda>x. Generate x ?os True) (ns @ [q]) :: ('p word, unit, 'w) call list) (?i, w)
               = Inr (map (\<lambda>k. Some (?p k)) [0..<?N] @ [Some 0], sN, w)"
    using r last by (simp add: run_append)
  have each: "?p k \<noteq> 0 \<and> procName (entrypoints sN k) = Some (c_str (ns ! k))
                \<and> entrypointExec (entrypoints sN k) = ?p k
                \<and> (\<forall>os' d'. glvndGenerateEntrypoint b os' d' (ns ! k) sN = Inr (?p k, sN))"
    if k: "k < ?N" for k
  proof -
    have kc: "k < entrypointCount sN" using k cN by simp
    note rk = recs[OF k]
    have "unat (entrypointExec (entrypoints sN k)) \<noteq> 0"
      using stub_unat(1)[OF nN slN kc] exN by (simp add: unat_eq_0)
    then have nz: "?p k \<noteq> 0" using rk by auto
    have hit: "\<forall>os' d'. glvndGenerateEntrypoint b os' d' (ns ! k) sN = Inr (?p k, sN)"
      using generate_hit[OF nN exN kc, of "ns ! k"] rk by simp
    from nz rk hit show ?thesis by blast
  qed
  from N A full cN each last show ?thesis by blast
qed

theorem capacity_bound_witness:
  "region_ok (0x10000 :: 32 word) 0x30000
   \<and> length ex_names = GENERATED_ENTRYPOINT_MAX
   \<and> distinct (map c_str (ex_names @ [''b'']))
   \<and> (\<exists>sN. run ex_build (map (\<lambda>x. Generate x (Allocated 0x10000 0x30000) True) (ex_names @ [''b''])
                      :: (32 word, unit, unit) call list) (initial_state (\<lambda>a. 0), ())
               = Inr (map (\<lambda>k. Some (0x30000 + of_nat (k * STUB_ENTRY_SIZE) + thumb_bit ex_build))
                        [0..<GENERATED_ENTRYPOINT_MAX] @ [Some 0], sN, ())
          \<and> entrypointCount sN = GENERATED_ENTRYPOINT_MAX
          \<and> find_entrypoint ''b'' 0 sN = Inr None
          \<and> glvndGenerateEntrypoint ex_build AllocFailed True ''b'' sN = Inr (0, sN)
          \<and> glvndGenerateEntrypoint ex_build AllocFailed True ''a'' sN = Inr (0x30000, sN)
          \<and> (\<exists>s'. glvndGenerateEntrypoint ex_build AllocFailed False ''b'' sN = Inr (0, s')
                \<and> entrypoints s' = entrypoints sN))"
proof -
  have h1: "region_ok (0x10000 :: 32 word) 0x30000"
    by (simp add: region_ok_def STUB_ENTRY_SIZE_def GENERATED_ENTRYPOINT_MAX_def)
  have h2: "length ex_names = GENERATED_ENTRYPOINT_MAX" by (simp add: ex_names_def)
  note h3 = ex_names_distinct
  note T = capacity_bound [OF h1 h2 h3, where b = ex_build and m = "\<lambda>a. 0" and w = "()"]
  from T[THEN conjunct2, THEN conjunct2] obtain sN where
    r: "run ex_build (map (\<lambda>x. Generate x (Allocated 0x10000 0x30000) True) (ex_names @ [''b''])
                      :: (32 word, unit, unit) call list) (initial_state (\<lambda>a. 0), ())
               = Inr (map (\<lambda>k. Some (0x30000 + of_nat (k * STUB_ENTRY_SIZE) + thumb_bit ex_build))
                        [0..<GENERATED_ENTRYPOINT_MAX] @ [Some 0], sN, ())"
    and c: "entrypointCount sN = GENERATED_ENTRYPOINT_MAX"
    and each: "\<forall>k<GENERATED_ENTRYPOINT_MAX.
                0x30000 + of_nat (k * STUB_ENTRY_SIZE) + thumb_bit ex_build \<noteq> 0
                \<and> procName (entrypoints sN k) = Some (c_str (ex_names ! k))
                \<and> entrypointExec (entrypoints sN k)
                    = 0x30000 + of_nat (k * STUB_ENTRY_SIZE) + thumb_bit ex_build
                \<and> (\<forall>os' d'. glvndGenerateEntrypoint ex_build os' d' (ex_names ! k) sN
                       = Inr (0x30000 + of_nat (k * STUB_ENTRY_SIZE) + thumb_bit ex_build, sN))"
    and last: "\<forall>os' d'. glvndGenerateEntrypoint ex_build os' d' ''b'' sN = Inr (0, sN)"
    by blast
  have z: "(0::nat) < GENERATED_ENTRYPOINT_MAX" by (simp add: GENERATED_ENTRYPOINT_MAX_def)
  have n0: "ex_names ! 0 = ''a''"
    using z by (simp add: ex_names_def)
  from each z have "glvndGenerateEntrypoint ex_build AllocFailed True (ex_names ! 0) sN
      = Inr (0x30000 + of_nat (0 * STUB_ENTRY_SIZE) + thumb_bit ex_build, sN)" by blast
  then have a: "glvndGenerateEntrypoint ex_build AllocFailed True ''a'' sN = Inr (0x30000, sN)"
    by (simp add: n0 thumb_bit_def ex_build_def)
  from last have bq: "glvndGenerateEntrypoint ex_build AllocFailed True ''b'' sN = Inr (0, sN)"
    by blast
  have fq: "find_entrypoint ''b'' 0 sN = Inr None"
    unfolding find_entrypoint_None_iff
  proof (intro allI impI)
    fix j assume "0 \<le> j \<and> j < entrypointCount sN"
    then have j: "j < GENERATED_ENTRYPOINT_MAX" using c by simp
    with each have "procName (entrypoints sN j) = Some (c_str (ex_names ! j))" by blast
    moreover have "c_str (c_str (ex_names ! j)) \<noteq> c_str ''b''"
      using j by (simp add: ex_names_def c_str_replicate_a del: replicate_Suc) (simp add: c_str_def)
    ultimately show "\<exists>nm. procName (entrypoints sN j) = Some nm \<and> c_str nm \<noteq> c_str ''b''"
      by blast
  qed
  from capacity_bound [OF h1 h2 h3, where s = sN and q' = "''b''" and b = ex_build
      and os = AllocFailed and d = False, THEN conjunct2, THEN conjunct1] c fq
  have f: "\<exists>s'. glvndGenerateEntrypoint ex_build AllocFailed False ''b'' sN = Inr (0, s')
                \<and> entrypoints s' = entrypoints sN"
    by blast
  from h1 h2 h3 r c fq bq a f show ?thesis by blast
qed

lemma answers_fst:
  "map fst (fst (answers cb prm nm is w)) = is"
proof (induction "is" arbitrary: w)
  case Nil
  then show ?case by simp
next
  case (Cons i "is")
  obtain addr w1 where cb: "cb (nm i) prm w = (addr, w1)" by (cases "cb (nm i) prm w")
  obtain as wf where an: "answers cb prm nm is w1 = (as, wf)"
    by (cases "answers cb prm nm is w1")
  from Cons.IH[of w1] an have "map fst as = is" by simp
  with cb an show ?case by simp
qed

lemma answers_cong:
  "(\<And>i. i \<in> set is \<Longrightarrow> nm i = nm' i) \<Longrightarrow> answers cb prm nm is w = answers cb prm nm' is w"
  by (induction "is" arbitrary: w) (auto split: prod.splits)

lemma patch_all_cong:
  "(\<And>i. entrypointWrite (es i) = entrypointWrite (es' i)
          \<and> entrypointExec (es i) = entrypointExec (es' i)) \<Longrightarrow>
     patch_all a es as m = patch_all a es' as m"
proof -
  assume h: "\<And>i. entrypointWrite (es i) = entrypointWrite (es' i)
          \<and> entrypointExec (es i) = entrypointExec (es' i)"
  have "(\<lambda>m ia. if snd ia \<noteq> 0
                    then patch a (entrypointWrite (es (fst ia))) (entrypointExec (es (fst ia))) (snd ia) m
                    else m)
      = (\<lambda>m ia. if snd ia \<noteq> 0
                    then patch a (entrypointWrite (es' (fst ia))) (entrypointExec (es' (fst ia))) (snd ia) m
                    else m)"
    by (intro ext) (simp add: h)
  then show ?thesis by (simp add: patch_all_def)
qed

lemma patch_all_Cons:
  "patch_all a es ((i, x) # as) m =
     patch_all a es as
       (if x \<noteq> 0 then patch a (entrypointWrite (es i)) (entrypointExec (es i)) x m else m)"
  by (simp add: patch_all_def)

lemma patch_all_Nil [simp]: "patch_all a es [] m = m"
  by (simp add: patch_all_def)

lemma update_over_answers:
  assumes "distinct is"
    and "update_over b cb prm is (s, w) = Inr (s', w')"
  shows "w' = snd (answers cb prm (\<lambda>i. procName (entrypoints s i)) is w)
     \<and> (\<forall>i. entrypoints s' i =
           (if i \<in> set (answered (fst (answers cb prm (\<lambda>i. procName (entrypoints s i)) is w)))
            then (entrypoints s i)\<lparr>assigned := 1\<rparr> else entrypoints s i))
     \<and> mem s' = patch_all (isa b) (entrypoints s)
                   (fst (answers cb prm (\<lambda>i. procName (entrypoints s i)) is w)) (mem s)"
  using assms
proof (induction "is" arbitrary: s w)
  case Nil
  then show ?case by (simp add: answered_def)
next
  case (Cons i0 "is")
  let ?nm = "\<lambda>i. procName (entrypoints s i)"
  obtain addr w1 where cb: "cb (procName (entrypoints s i0)) prm w = (addr, w1)"
    by (cases "cb (procName (entrypoints s i0)) prm w")
  obtain as wf where an: "answers cb prm ?nm is w1 = (as, wf)"
    by (cases "answers cb prm ?nm is w1")
  have ans: "answers cb prm ?nm (i0 # is) w = ((i0, addr) # as, wf)"
    using cb an by simp
  have d: "distinct is" and i0: "i0 \<notin> set is" using Cons.prems(1) by simp_all
  have fst_as: "map fst as = is" using answers_fst[of cb prm ?nm "is" w1] an by simp
  have i0as: "i0 \<notin> set (answered as)"
    using i0 fst_as by (force simp: answered_def image_iff)
  show ?case
  proof (cases "addr = 0")
    case True
    with Cons.prems(2) cb have u: "update_over b cb prm is (s, w1) = Inr (s', w')" by simp
    from Cons.IH[OF d u] an True show ?thesis
      unfolding ans by (simp add: answered_def patch_all_Cons)
  next
    case False
    let ?s1 = "s\<lparr>mem := patch (isa b) (entrypointWrite (entrypoints s i0))
                             (entrypointExec (entrypoints s i0)) addr (mem s),
                    trace := trace s @
                      (if isa b = USE_ARMV7_ASM
                       then [Call_clear_cache (entrypointExec (entrypoints s i0) - 1)
                               (entrypointExec (entrypoints s i0) - 1 + 12)]
                       else []),
                    entrypoints := (entrypoints s)(i0 := (entrypoints s i0)\<lparr>assigned := 1\<rparr>)\<rparr>"
    from Cons.prems(2) cb False have u: "update_over b cb prm is (?s1, w1) = Inr (s', w')"
      by (simp split: if_splits)
    have nm1: "answers cb prm (\<lambda>i. procName (entrypoints ?s1 i)) is w1 = (as, wf)"
      using an answers_cong[of "is" "\<lambda>i. procName (entrypoints ?s1 i)" ?nm cb prm w1] by simp
    have pa: "patch_all (isa b) (entrypoints ?s1) as (mem ?s1)
        = patch_all (isa b) (entrypoints s) as (mem ?s1)"
      by (rule patch_all_cong) simp
    note ih = Cons.IH[OF d u, unfolded nm1 fst_conv snd_conv]
    note w' = ih[THEN conjunct1]
    note e' = ih[THEN conjunct2, THEN conjunct1]
    note m' = ih[THEN conjunct2, THEN conjunct2]
    have e: "\<forall>i. entrypoints s' i =
           (if i \<in> set (answered ((i0, addr) # as))
            then (entrypoints s i)\<lparr>assigned := 1\<rparr> else entrypoints s i)"
      using e' i0as False by (auto simp: answered_def)
    have m: "mem s' = patch_all (isa b) (entrypoints s) ((i0, addr) # as) (mem s)"
      using trans[OF m' pa] False by (simp add: patch_all_Cons)
    from w' e m show ?thesis unfolding ans by simp
  qed
qed

lemma distinct_unassigned: "distinct (unassigned s)"
  by (simp add: unassigned_def)

lemma field_in_slot: "k < dispatch_slot_size a \<Longrightarrow> DISPATCH_FUNC_OFFSET a + k < STUB_ENTRY_SIZE"
  by (cases a) (simp_all add: STUB_ENTRY_SIZE_def)

lemma patch_other:
  assumes "\<forall>k<dispatch_slot_size a. x \<noteq> code + of_nat (DISPATCH_FUNC_OFFSET a + k)"
  shows "patch a code exec d m x = m x"
  unfolding patch_def
proof (rule store_bytes_other)
  show "\<forall>k<length (dispatch_bytes a exec d).
          x \<noteq> code + of_nat (DISPATCH_FUNC_OFFSET a) + of_nat k"
    using assms by (simp add: add.assoc)
qed

lemma patch_all_other:
  assumes "\<forall>ia\<in>set as. snd ia \<noteq> 0 \<longrightarrow>
     (\<forall>k<dispatch_slot_size a.
        x \<noteq> entrypointWrite (es (fst ia)) + of_nat (DISPATCH_FUNC_OFFSET a + k))"
  shows "patch_all a es as m x = m x"
  using assms
proof (induction as arbitrary: m)
  case Nil
  then show ?case by simp
next
  case (Cons ia as)
  obtain i v where ia: "ia = (i, v)" by (cases ia)
  have "patch_all a es as
          (if v \<noteq> 0 then patch a (entrypointWrite (es i)) (entrypointExec (es i)) v m else m) x
        = (if v \<noteq> 0 then patch a (entrypointWrite (es i)) (entrypointExec (es i)) v m else m) x"
    using Cons.prems by (intro Cons.IH) simp
  also have "\<dots> = m x"
  proof (cases "v \<noteq> 0")
    case True
    have "ia \<in> set (ia # as)" by simp
    with Cons.prems True ia
    have "\<forall>k<dispatch_slot_size a.
        x \<noteq> entrypointWrite (es i) + of_nat (DISPATCH_FUNC_OFFSET a + k)"
      by (metis fst_conv snd_conv)
    from patch_other[OF this] True show ?thesis by simp
  next
    case False
    then show ?thesis by simp
  qed
  finally show ?case by (simp add: ia patch_all_Cons)
qed

lemma slots_disjoint:
  assumes n: "names_inv s" and sl: "slab_inv b s"
    and i: "i < entrypointCount s" and j: "j < entrypointCount s" and ij: "i \<noteq> j"
    and k: "k < STUB_ENTRY_SIZE" and k': "k' < STUB_ENTRY_SIZE"
  shows "entrypointWrite (entrypoints s i) + of_nat k \<noteq> entrypointWrite (entrypoints s j) + of_nat k'"
proof -
  from n i j have im: "i < GENERATED_ENTRYPOINT_MAX" "j < GENERATED_ENTRYPOINT_MAX"
    by (simp_all add: names_inv_def)
  from sl i have ne: "entrypointBufferExec s \<noteq> 0" by (auto simp: slab_inv_def)
  with sl have reg: "unat (entrypointBufferWrite s) + STUB_ENTRY_SIZE * GENERATED_ENTRYPOINT_MAX
      \<le> 2 ^ LENGTH('a)"
    by (simp add: slab_inv_def region_ok_def)
  have wi: "entrypointWrite (entrypoints s i) = entrypointBufferWrite s + of_nat (i * STUB_ENTRY_SIZE)"
    and wj: "entrypointWrite (entrypoints s j) = entrypointBufferWrite s + of_nat (j * STUB_ENTRY_SIZE)"
    using sl i j by (simp_all add: slab_inv_def stub_write_def)
  have ui: "unat (entrypointWrite (entrypoints s i) + of_nat k)
      = unat (entrypointBufferWrite s) + i * STUB_ENTRY_SIZE + k"
    unfolding wi using reg im(1) k by (rule slot_unat)
  have uj: "unat (entrypointWrite (entrypoints s j) + of_nat k')
      = unat (entrypointBufferWrite s) + j * STUB_ENTRY_SIZE + k'"
    unfolding wj using reg im(2) k' by (rule slot_unat)
  have "i * STUB_ENTRY_SIZE + k \<noteq> j * STUB_ENTRY_SIZE + k'"
  proof
    assume e: "i * STUB_ENTRY_SIZE + k = j * STUB_ENTRY_SIZE + k'"
    then have "(i * STUB_ENTRY_SIZE + k) div STUB_ENTRY_SIZE = (j * STUB_ENTRY_SIZE + k') div STUB_ENTRY_SIZE"
      by simp
    with k k' have "i = j" by (simp add: STUB_ENTRY_SIZE_def)
    with ij show False by simp
  qed
  with ui uj show ?thesis by auto
qed

lemma patch_all_field:
  fixes es :: "nat \<Rightarrow> 'p::len word GLVNDGenEntrypoint"
  assumes d: "distinct (map fst as)"
    and sub: "\<forall>ia\<in>set as. fst ia < n"
    and disj: "\<And>i j k k'. i < n \<Longrightarrow> j < n \<Longrightarrow> i \<noteq> j \<Longrightarrow> k < STUB_ENTRY_SIZE \<Longrightarrow> k' < STUB_ENTRY_SIZE \<Longrightarrow>
       entrypointWrite (es i) + of_nat k \<noteq> entrypointWrite (es j) + of_nat k'"
    and big: "(8::nat) \<le> 2 ^ LENGTH('p)"
    and mem: "(i, v) \<in> set as" and v: "v \<noteq> 0" and k: "k < dispatch_slot_size a"
  shows "patch_all a es as m (entrypointWrite (es i) + of_nat (DISPATCH_FUNC_OFFSET a) + of_nat k)
           = dispatch_bytes a (entrypointExec (es i)) v ! k"
  using d sub mem
proof (induction as arbitrary: m)
  case Nil
  then show ?case by simp
next
  case (Cons ia as)
  obtain i0 v0 where ia: "ia = (i0, v0)" by (cases ia)
  let ?A = "entrypointWrite (es i) + of_nat (DISPATCH_FUNC_OFFSET a) + of_nat k"
  let ?m1 = "if v0 \<noteq> 0 then patch a (entrypointWrite (es i0)) (entrypointExec (es i0)) v0 m else m"
  have un: "patch_all a es (ia # as) m ?A = patch_all a es as ?m1 ?A"
    by (simp add: ia patch_all_Cons)
  show ?case
  proof (cases "(i, v) \<in> set as")
    case True
    have "patch_all a es as ?m1 ?A = dispatch_bytes a (entrypointExec (es i)) v ! k"
      using Cons.prems True by (intro Cons.IH) simp_all
    with un show ?thesis by simp
  next
    case False
    with Cons.prems(3) ia have eq: "i0 = i" "v0 = v" by simp_all
    have i_n: "i < n" using Cons.prems(2) ia eq by simp
    have "patch_all a es as ?m1 ?A = ?m1 ?A"
    proof (rule patch_all_other, intro ballI impI allI)
      fix jb k' assume jb: "jb \<in> set as" and "snd jb \<noteq> 0" and k': "k' < dispatch_slot_size a"
      have jn: "fst jb < n" using Cons.prems(2) jb by simp
      have "fst jb \<noteq> i" using Cons.prems(1) jb ia eq by (auto simp: image_iff)
      then have "entrypointWrite (es i) + of_nat (DISPATCH_FUNC_OFFSET a + k)
          \<noteq> entrypointWrite (es (fst jb)) + of_nat (DISPATCH_FUNC_OFFSET a + k')"
        using i_n jn field_in_slot[OF k] field_in_slot[OF k'] by (intro disj) auto
      then show "?A \<noteq> entrypointWrite (es (fst jb)) + of_nat (DISPATCH_FUNC_OFFSET a + k')"
        by (simp add: add.assoc)
    qed
    also have "\<dots> = dispatch_bytes a (entrypointExec (es i)) v ! k"
      using v eq patch_reads_back[OF big k] by simp
    finally show ?thesis using un by simp
  qed
qed

lemma answers_log:
  "snd (answers (\<lambda>n p l. (f n p, l @ [n])) prm nm is l0) = l0 @ map nm is"
proof (induction "is" arbitrary: l0)
  case Nil
  then show ?case by simp
next
  case (Cons i "is")
  obtain as lf where an: "answers (\<lambda>n p l. (f n p, l @ [n])) prm nm is (l0 @ [nm i]) = (as, lf)"
    by (cases "answers (\<lambda>n p l. (f n p, l @ [n])) prm nm is (l0 @ [nm i])")
  from Cons.IH[of "l0 @ [nm i]"] an have "lf = l0 @ [nm i] @ map nm is" by simp
  with an show ?case by simp
qed

lemma answered_subset: "set (answered as) \<subseteq> set (map fst as)"
  by (auto simp: answered_def)

lemma answered_iff: "i \<in> set (answered as) \<longleftrightarrow> (\<exists>v. (i, v) \<in> set as \<and> v \<noteq> 0)"
  by (force simp: answered_def image_iff)

section \<open>Updating the dispatch targets\<close>

text \<open>
  Claim C2. \<open>glvndUpdateEntrypoints\<close> is the loop over the indices of the live records
  whose \<open>assigned\<close> flag is zero, in increasing order: for each of them the callback is
  invoked once with the record's name, starting from the caller's state that the previous
  invocation left (\<open>answers\<close> lists the invocations; a callback that logs its argument
  logs exactly the names of those records, in index order). When the update returns, a
  record whose invocation answered a non-null address has \<open>assigned = 1\<close> and is
  otherwise unchanged, every other record is unchanged, in particular every record that
  was assigned and every record beyond the counter, and memory is the old memory with
  the answered addresses patched in, in order. In a state reached from the initial one
  (allocator answers well-formed) the update does return; no byte of the slot of a
  record that was assigned changes, whatever the callback would answer for it; and the
  dispatch field of each answered record holds the encoding of its answer.
\<close>

theorem update_callbacks_and_patches:
  fixes s :: "'p::len word state" and w :: 'w and l0 :: "string option list"
    and cb :: "('p word, 'a, 'w) GLVNDentrypointUpdateCallback" and prm :: 'a
  defines "nm \<equiv> \<lambda>i. procName (entrypoints s i)"
  defines "as \<equiv> fst (answers cb prm nm (unassigned s) w)"
  shows
   "unassigned s = filter (\<lambda>i. assigned (entrypoints s i) = 0) [0..<entrypointCount s]
    \<and> glvndUpdateEntrypoints b cb prm (s, w) = update_over b cb prm (unassigned s) (s, w)
    \<and> map fst as = unassigned s
    \<and> (\<forall>s' w'. glvndUpdateEntrypoints b cb prm (s, w) = Inr (s', w') \<longrightarrow>
          w' = snd (answers cb prm nm (unassigned s) w)
          \<and> entrypointCount s' = entrypointCount s
          \<and> (\<forall>i. entrypoints s' i =
                (if i \<in> set (answered as) then (entrypoints s i)\<lparr>assigned := 1\<rparr>
                 else entrypoints s i))
          \<and> (\<forall>i. assigned (entrypoints s i) \<noteq> 0 \<or> entrypointCount s \<le> i \<longrightarrow>
                entrypoints s' i = entrypoints s i)
          \<and> mem s' = patch_all (isa b) (entrypoints s) as (mem s))
    \<and> (\<forall>f s' l'. glvndUpdateEntrypoints b (\<lambda>n p l. (f n p, l @ [n])) prm (s, l0) = Inr (s', l')
          \<longrightarrow> l' = l0 @ map nm (unassigned s))
    \<and> ((\<forall>c\<in>set cs. call_ok c) \<and> run b cs (initial_state m, w0) = Inr (rs, s, w) \<longrightarrow>
         (\<exists>s' w'. glvndUpdateEntrypoints b cb prm (s, w) = Inr (s', w')
            \<and> (\<forall>i<entrypointCount s. assigned (entrypoints s i) \<noteq> 0 \<longrightarrow>
                  (\<forall>k<STUB_ENTRY_SIZE.
                      mem s' (entrypointWrite (entrypoints s i) + of_nat k)
                        = mem s (entrypointWrite (entrypoints s i) + of_nat k)))
            \<and> (\<forall>i v. (i, v) \<in> set as \<and> v \<noteq> 0 \<longrightarrow>
                  (\<forall>k<dispatch_slot_size (isa b).
                      mem s' (entrypointWrite (entrypoints s i)
                                + of_nat (DISPATCH_FUNC_OFFSET (isa b)) + of_nat k)
                        = dispatch_bytes (isa b) (entrypointExec (entrypoints s i)) v ! k))))"
proof -
  have c1: "unassigned s = filter (\<lambda>i. assigned (entrypoints s i) = 0) [0..<entrypointCount s]"
    by (simp add: unassigned_def)
  have c2: "glvndUpdateEntrypoints b cb prm (s, w) = update_over b cb prm (unassigned s) (s, w)"
    by (rule glvndUpdateEntrypoints_eq)
  have c3: "map fst as = unassigned s"
    unfolding as_def by (rule answers_fst)
  have un: "\<And>i. i \<in> set (unassigned s) \<longleftrightarrow> i < entrypointCount s \<and> assigned (entrypoints s i) = 0"
    by (auto simp: unassigned_def)
  have c4: "w' = snd (answers cb prm nm (unassigned s) w)
          \<and> entrypointCount s' = entrypointCount s
          \<and> (\<forall>i. entrypoints s' i =
                (if i \<in> set (answered as) then (entrypoints s i)\<lparr>assigned := 1\<rparr>
                 else entrypoints s i))
          \<and> (\<forall>i. assigned (entrypoints s i) \<noteq> 0 \<or> entrypointCount s \<le> i \<longrightarrow>
                entrypoints s' i = entrypoints s i)
          \<and> mem s' = patch_all (isa b) (entrypoints s) as (mem s)"
    if u: "glvndUpdateEntrypoints b cb prm (s, w) = Inr (s', w')" for s' w'
  proof -
    note uo = u[unfolded c2]
    note A = update_over_answers[OF distinct_unassigned uo, folded nm_def, folded as_def]
    note F = update_over_frame[OF uo]
    have ent: "\<forall>i. entrypoints s' i =
                (if i \<in> set (answered as) then (entrypoints s i)\<lparr>assigned := 1\<rparr>
                 else entrypoints s i)"
      using A by blast
    have "entrypoints s' i = entrypoints s i"
      if "assigned (entrypoints s i) \<noteq> 0 \<or> entrypointCount s \<le> i" for i
    proof -
      from that have "i \<notin> set (unassigned s)" using un[of i] by auto
      then have "i \<notin> set (answered as)" using answered_subset[of as] c3 by auto
      with ent show ?thesis by simp
    qed
    with A F ent show ?thesis by blast
  qed
  have c5: "l' = l0 @ map nm (unassigned s)"
    if u: "glvndUpdateEntrypoints b (\<lambda>n p l. (f n p, l @ [n])) prm (s, l0) = Inr (s', l')"
    for f s' l'
  proof -
    note uo = u[unfolded glvndUpdateEntrypoints_eq]
    from update_over_answers[OF distinct_unassigned uo, folded nm_def]
    have "l' = snd (answers (\<lambda>n p l. (f n p, l @ [n])) prm nm (unassigned s) l0)" by blast
    then show ?thesis by (simp add: answers_log)
  qed
  have c6: "\<exists>s' w'. glvndUpdateEntrypoints b cb prm (s, w) = Inr (s', w')
            \<and> (\<forall>i<entrypointCount s. assigned (entrypoints s i) \<noteq> 0 \<longrightarrow>
                  (\<forall>k<STUB_ENTRY_SIZE.
                      mem s' (entrypointWrite (entrypoints s i) + of_nat k)
                        = mem s (entrypointWrite (entrypoints s i) + of_nat k)))
            \<and> (\<forall>i v. (i, v) \<in> set as \<and> v \<noteq> 0 \<longrightarrow>
                  (\<forall>k<dispatch_slot_size (isa b).
                      mem s' (entrypointWrite (entrypoints s i)
                                + of_nat (DISPATCH_FUNC_OFFSET (isa b)) + of_nat k)
                        = dispatch_bytes (isa b) (entrypointExec (entrypoints s i)) v ! k))"
    if h: "(\<forall>c\<in>set cs. call_ok c) \<and> run b cs (initial_state m, w0) = Inr (rs, s, w)"
  proof -
    have n: "names_inv s" using initial_names_inv h by (auto intro: run_names_inv)
    have sl: "slab_inv b s" using initial_slab_inv h by (auto intro: run_slab_inv)
    from update_total[OF sl, of cb prm w] obtain s' w' where
      u: "glvndUpdateEntrypoints b cb prm (s, w) = Inr (s', w')" by blast
    from c4[OF u] have ms: "mem s' = patch_all (isa b) (entrypoints s) as (mem s)" by blast
    have live: "\<forall>ia\<in>set as. fst ia < entrypointCount s"
    proof
      fix ia assume "ia \<in> set as"
      then have "fst ia \<in> set (map fst as)" by simp
      then show "fst ia < entrypointCount s" using c3 un by simp
    qed
    have keep: "mem s' (entrypointWrite (entrypoints s i) + of_nat k)
                        = mem s (entrypointWrite (entrypoints s i) + of_nat k)"
      if i: "i < entrypointCount s" and a: "assigned (entrypoints s i) \<noteq> 0"
        and k: "k < STUB_ENTRY_SIZE" for i k
      unfolding ms
    proof (rule patch_all_other, intro ballI impI allI)
      fix ia k' assume ia: "ia \<in> set as" and k': "k' < dispatch_slot_size (isa b)"
      from ia have "fst ia \<in> set (unassigned s)" using c3 by (metis image_eqI list.set_map)
      with a have ne: "i \<noteq> fst ia" using un by auto
      from live ia have "fst ia < entrypointCount s" by blast
      from slots_disjoint[OF n sl i this ne k field_in_slot[OF k']]
      show "entrypointWrite (entrypoints s i) + of_nat k
          \<noteq> entrypointWrite (entrypoints s (fst ia)) + of_nat (DISPATCH_FUNC_OFFSET (isa b) + k')" .
    qed
    have big: "(8::nat) \<le> 2 ^ LENGTH('p)" if "as \<noteq> []"
    proof -
      from that obtain ia where "ia \<in> set as" by (cases as) auto
      with live have "0 < entrypointCount s" by fastforce
      with sl have "region_ok (entrypointBufferWrite s) (entrypointBufferExec s)"
        by (auto simp: slab_inv_def)
      then show ?thesis by (rule region_ok_big)
    qed
    have fld: "mem s' (entrypointWrite (entrypoints s i)
                                + of_nat (DISPATCH_FUNC_OFFSET (isa b)) + of_nat k)
                        = dispatch_bytes (isa b) (entrypointExec (entrypoints s i)) v ! k"
      if iv: "(i, v) \<in> set as \<and> v \<noteq> 0" and k: "k < dispatch_slot_size (isa b)" for i v k
      unfolding ms
    proof (rule patch_all_field[where n = "entrypointCount s"])
      show "distinct (map fst as)" using c3 distinct_unassigned by simp
      show "\<forall>ia\<in>set as. fst ia < entrypointCount s" by (rule live)
      from iv have "as \<noteq> []" by auto
      then show "(8::nat) \<le> 2 ^ LENGTH('p)" by (rule big)
      show "(i, v) \<in> set as" "v \<noteq> 0" using iv by simp_all
      show "k < dispatch_slot_size (isa b)" by (rule k)
    next
      fix i j k k' assume "i < entrypointCount s" "j < entrypointCount s" "i \<noteq> j"
        "k < STUB_ENTRY_SIZE" "k' < STUB_ENTRY_SIZE"
      then show "entrypointWrite (entrypoints s i) + of_nat k
          \<noteq> entrypointWrite (entrypoints s j) + of_nat k'"
        by (rule slots_disjoint[OF n sl])
    qed
    from u keep fld show ?thesis by blast
  qed
  from c1 c2 c3 c4 c5 c6 show ?thesis by blast
qed

theorem update_callbacks_and_patches_witness:
  "list_all call_ok ex_upd
   \<and> (\<exists>rs s w. run ex_build ex_upd (initial_state (\<lambda>a. 0), []) = Inr (rs, s, w)
         \<and> unassigned s = [1]
         \<and> (\<exists>s' w'. glvndUpdateEntrypoints ex_build (\<lambda>n p l. (0x8000, l @ [n])) () (s, w)
                        = Inr (s', w')
               \<and> w' = w @ [Some ''glBar'']
               \<and> entrypoints s' 0 = entrypoints s 0
               \<and> entrypoints s' 1 = (entrypoints s 1)\<lparr>assigned := 1\<rparr>
               \<and> map (\<lambda>k. mem s' (0x1000 + of_nat k)) [0..<STUB_ENTRY_SIZE]
                   = map (\<lambda>k. mem s (0x1000 + of_nat k)) [0..<STUB_ENTRY_SIZE]
               \<and> map (mem s') [0x1011, 0x1012, 0x1013, 0x1014] = [0xEB, 0x5F, 0, 0]))"
proof -
  let ?cb = "\<lambda>(n::string option) (p::unit) (l::string option list). (0x8000 :: 32 word, l @ [n])"
  have h1: "\<forall>c\<in>set ex_upd. call_ok c"
    by (simp add: ex_upd_def ex_gen2_def region_ok_def STUB_ENTRY_SIZE_def
        GENERATED_ENTRYPOINT_MAX_def)
  have "\<exists>rs s w. run ex_build ex_upd (initial_state (\<lambda>a. 0), []) = Inr (rs, s, w)
         \<and> unassigned s = [1] \<and> entrypointCount s = 2
         \<and> procName (entrypoints s 1) = Some ''glBar''
         \<and> assigned (entrypoints s 0) = 1
         \<and> entrypointWrite (entrypoints s 0) = 0x1000
         \<and> entrypointWrite (entrypoints s 1) = 0x1010
         \<and> entrypointExec (entrypoints s 1) = 0x2010"
    by (simp add: ex_upd_def ex_gen2_def eval_simps)
  then obtain rs s w where
    r: "run ex_build ex_upd (initial_state (\<lambda>a. 0), []) = Inr (rs, s, w)"
    and un: "unassigned s = [1]" and c: "entrypointCount s = 2"
    and nm1: "procName (entrypoints s 1) = Some ''glBar''"
    and a0: "assigned (entrypoints s 0) = 1"
    and w0: "entrypointWrite (entrypoints s 0) = 0x1000"
    and w1: "entrypointWrite (entrypoints s 1) = 0x1010"
    and e1: "entrypointExec (entrypoints s 1) = 0x2010"
    by blast
  have as: "fst (answers ?cb () (\<lambda>i. procName (entrypoints s i)) (unassigned s) w) = [(1, 0x8000)]"
    by (simp add: un)
  note T = update_callbacks_and_patches [where s = s and w = w and cb = ?cb and prm = "()"
      and b = ex_build and cs = ex_upd and m = "\<lambda>a. 0" and ?w0.0 = "[]" and rs = rs and ?l0.0 = w,
      unfolded as]
  note T4 = T[THEN conjunct2, THEN conjunct2, THEN conjunct2, THEN conjunct1]
  note T5 = T[THEN conjunct2, THEN conjunct2, THEN conjunct2, THEN conjunct2, THEN conjunct1]
  note T6 = T[THEN conjunct2, THEN conjunct2, THEN conjunct2, THEN conjunct2, THEN conjunct2]
  from T6 h1 r obtain s' w' where
    u: "glvndUpdateEntrypoints ex_build ?cb () (s, w) = Inr (s', w')"
    and keep: "\<forall>i<entrypointCount s. assigned (entrypoints s i) \<noteq> 0 \<longrightarrow>
                  (\<forall>k<STUB_ENTRY_SIZE.
                      mem s' (entrypointWrite (entrypoints s i) + of_nat k)
                        = mem s (entrypointWrite (entrypoints s i) + of_nat k))"
    and fld: "\<forall>i v. (i, v) \<in> set [(1::nat, 0x8000 :: 32 word)] \<and> v \<noteq> 0 \<longrightarrow>
                  (\<forall>k<dispatch_slot_size (isa ex_build).
                      mem s' (entrypointWrite (entrypoints s i)
                                + of_nat (DISPATCH_FUNC_OFFSET (isa ex_build)) + of_nat k)
                        = dispatch_bytes (isa ex_build) (entrypointExec (entrypoints s i)) v ! k)"
    by blast
  from T5[rule_format, OF u] nm1 have lg: "w' = w @ [Some ''glBar'']"
    by (simp add: un)
  from T4[rule_format, OF u] have ent:
    "\<forall>i. entrypoints s' i =
          (if i \<in> set (answered [(1::nat, 0x8000 :: 32 word)])
           then (entrypoints s i)\<lparr>assigned := 1\<rparr> else entrypoints s i)"
    by blast
  have en0: "entrypoints s' 0 = entrypoints s 0" using ent by (simp add: answered_def)
  have en1: "entrypoints s' 1 = (entrypoints s 1)\<lparr>assigned := 1\<rparr>"
    using ent by (simp add: answered_def)
  from keep[rule_format, of 0] c a0 w0
  have k0: "\<forall>k<STUB_ENTRY_SIZE. mem s' (0x1000 + of_nat k) = mem s (0x1000 + of_nat k)"
    by simp
  then have m0: "map (\<lambda>k. mem s' (0x1000 + of_nat k)) [0..<STUB_ENTRY_SIZE]
                   = map (\<lambda>k. mem s (0x1000 + of_nat k)) [0..<STUB_ENTRY_SIZE]"
    by simp
  have f: "\<forall>k<4. mem s' (0x1010 + 1 + of_nat k)
      = dispatch_bytes USE_X86_ASM (0x2010 :: 32 word) 0x8000 ! k"
    using fld[rule_format, of 1 "0x8000"] w1 e1 by (simp add: ex_build_def)
  have m1: "map (mem s') [0x1011, 0x1012, 0x1013, 0x1014] = [0xEB, 0x5F, 0, 0]"
    using f[rule_format, of 0] f[rule_format, of 1] f[rule_format, of 2] f[rule_format, of 3]
    by (simp add: dispatch_bytes_def le_bytes_4)
  have h1': "list_all call_ok ex_upd" using h1 by (simp add: list_all_iff)
  have inner: "\<exists>s' w'. glvndUpdateEntrypoints ex_build ?cb () (s, w) = Inr (s', w')
               \<and> w' = w @ [Some ''glBar'']
               \<and> entrypoints s' 0 = entrypoints s 0
               \<and> entrypoints s' 1 = (entrypoints s 1)\<lparr>assigned := 1\<rparr>
               \<and> map (\<lambda>k. mem s' (0x1000 + of_nat k)) [0..<STUB_ENTRY_SIZE]
                   = map (\<lambda>k. mem s (0x1000 + of_nat k)) [0..<STUB_ENTRY_SIZE]
               \<and> map (mem s') [0x1011, 0x1012, 0x1013, 0x1014] = [0xEB, 0x5F, 0, 0]"
    using u lg en0 en1 m0 m1 by (intro exI[of _ s'] exI[of _ w'] conjI)
  show ?thesis
  proof (rule conjI)
    show "list_all call_ok ex_upd" by (rule h1')
    show "\<exists>rs s w. run ex_build ex_upd (initial_state (\<lambda>a. 0), []) = Inr (rs, s, w)
         \<and> unassigned s = [1]
         \<and> (\<exists>s' w'. glvndUpdateEntrypoints ex_build ?cb () (s, w) = Inr (s', w')
               \<and> w' = w @ [Some ''glBar'']
               \<and> entrypoints s' 0 = entrypoints s 0
               \<and> entrypoints s' 1 = (entrypoints s 1)\<lparr>assigned := 1\<rparr>
               \<and> map (\<lambda>k. mem s' (0x1000 + of_nat k)) [0..<STUB_ENTRY_SIZE]
                   = map (\<lambda>k. mem s (0x1000 + of_nat k)) [0..<STUB_ENTRY_SIZE]
               \<and> map (mem s') [0x1011, 0x1012, 0x1013, 0x1014] = [0xEB, 0x5F, 0, 0])"
      apply (rule exI[of _ rs], rule exI[of _ s], rule exI[of _ w])
      apply (rule conjI, rule r, rule conjI, rule un)
      apply (rule inner)
      done
  qed

qed

end
